theory Spec2Isabelle
  imports Main "HOL-Library.Word" "HOL-Library.List_Lexorder" "HOL-Library.Multiset"
begin

section \<open>The constraint solver of lib/Sema/CSSolver.cpp\<close>

text \<open>
  A shallow embedding of the search engine of the type checker's constraint solver:
  \<^verbatim>\<open>checkTypeOfBinding\<close>, \<^verbatim>\<open>enumerateDirectSupertypes\<close>, the classifier
  \<^verbatim>\<open>collectConstraintsForTypeVariables\<close>, the worklist loop of \<^verbatim>\<open>simplify\<close>,
  \<^verbatim>\<open>SolverScope\<close>, \<^verbatim>\<open>PotentialBindings\<close>, \<^verbatim>\<open>getPotentialBindings\<close>,
  \<^verbatim>\<open>tryTypeVariableBindings\<close> and the top-level branch of \<^verbatim>\<open>solve\<close>.
  The type representation, the per-constraint simplifier and the type checker's
  lookups live in other files of the compiler: the types are modelled from the
  specification's data model, the lookups are parameters.
\<close>

subsection \<open>Types\<close>

text \<open>
  Modelled from the spec: the type representation (AST/Types.h is not part of the
  sources). Section 3 of the specification describes a type expression as a tree with
  type variables (identity-based), nominal types, tuples (ordered sequences of
  optionally-labelled, optionally-variadic elements), function types (input, result,
  auto-closure flag) and l-value wrapper types. A type variable is identified by a
  number (its address in the source). A tuple element carries its name (empty when
  unlabelled), its type and, when it is variadic, its vararg base type. An l-value type
  carries its object type and whether its qualifiers are implicit.
\<close>

datatype ty =
    TypeVariableType nat
  | NominalType string "ty list"
  | TupleType "TupleTypeElt list"
  | FunctionType ty ty bool
  | LValueType ty bool
and TupleTypeElt =
    TupleTypeElt string ty "ty option"

text \<open>A \<^verbatim>\<open>Type\<close> of the source is a nullable pointer to a type: \<open>None\<close> is the null type.\<close>

type_synonym Type = "ty option"

fun getName :: "TupleTypeElt \<Rightarrow> string" where
  "getName (TupleTypeElt n t v) = n"

fun getType :: "TupleTypeElt \<Rightarrow> ty" where
  "getType (TupleTypeElt n t v) = t"

fun isVararg :: "TupleTypeElt \<Rightarrow> bool" where
  "isVararg (TupleTypeElt n t v) = (v \<noteq> None)"

text \<open>
  \<^verbatim>\<open>getVarargBaseTy\<close> is called by the source only on a variadic element; on another
  element the model returns the element's type.
\<close>

fun getVarargBaseTy :: "TupleTypeElt \<Rightarrow> ty" where
  "getVarargBaseTy (TupleTypeElt n t (Some b)) = b"
| "getVarargBaseTy (TupleTypeElt n t None) = t"

text \<open>
  Modelled from the spec: \<^verbatim>\<open>getTypeVariables\<close>, the walk \<open>typeVariablesIn(t)\<close> of
  section 3, which appends every type variable occurring in the type, in order.
\<close>

fun getTypeVariables :: "ty \<Rightarrow> nat list"
  and getTypeVariablesElt :: "TupleTypeElt \<Rightarrow> nat list" where
  "getTypeVariables (TypeVariableType v) = [v]"
| "getTypeVariables (NominalType n args) = concat (map getTypeVariables args)"
| "getTypeVariables (TupleType elts) = concat (map getTypeVariablesElt elts)"
| "getTypeVariables (FunctionType i r a) = getTypeVariables i @ getTypeVariables r"
| "getTypeVariables (LValueType t q) = getTypeVariables t"
| "getTypeVariablesElt (TupleTypeElt n t v) = getTypeVariables t"

text \<open>Modelled from the spec: the predicates \<open>isTypeVariable\<close>, \<open>hasTypeVariable\<close>
  and \<open>rvalueOf\<close> of section 3.\<close>

fun isTypeVariableType :: "ty \<Rightarrow> bool" where
  "isTypeVariableType (TypeVariableType v) = True"
| "isTypeVariableType t = False"

definition hasTypeVariable :: "ty \<Rightarrow> bool" where
  "hasTypeVariable t = (getTypeVariables t \<noteq> [])"

fun getRValueType :: "ty \<Rightarrow> ty" where
  "getRValueType (LValueType t q) = t"
| "getRValueType t = t"

subsection \<open>The type checker's interface\<close>

text \<open>
  The lookups the solver calls on the constraint system, the type checker and the
  types, none of which is defined in CSSolver.cpp. They are parameters of the model.
  \<open>simplifyType\<close> and \<open>getRepresentative\<close> read the current substitution; the functions
  below that take them never change the substitution.
\<close>

type_synonym protocol = string

record tc_env =
  simplifyType :: "ty \<Rightarrow> ty"
  getRepresentative :: "nat \<Rightarrow> nat"
  getCanonicalType :: "ty \<Rightarrow> ty"
  getFieldForScalarInit :: "TupleTypeElt list \<Rightarrow> int"
  mayHaveSuperclass :: "ty \<Rightarrow> bool"
  getSuperClassOf :: "ty \<Rightarrow> Type"
  getDefaultType :: "protocol \<Rightarrow> Type"
  isUnspecializedGeneric :: "ty \<Rightarrow> bool"
  getAnyNominal :: "ty \<Rightarrow> string option"
  getAlternativeLiteralTypes :: "protocol \<Rightarrow> ty list"
  openBindingType :: "ty \<Rightarrow> ty"

subsection \<open>checkTypeOfBinding\<close>

text \<open>
  \<^verbatim>\<open>
  static Optional<Type> checkTypeOfBinding(ConstraintSystem &cs,
                                           TypeVariableType *typeVar, Type type) {
    if (!type)
      return Nothing;
    type = cs.simplifyType(type);
    SmallVector<TypeVariableType *, 4> referencedTypeVars;
    type->getTypeVariables(referencedTypeVars);
    if (std::count(referencedTypeVars.begin(), referencedTypeVars.end(), typeVar))
      return Nothing;
    if (type->getRValueType()->is<TypeVariableType>())
      return Nothing;
    return type;
  }
  \<close>
\<close>

definition checkTypeOfBinding :: "'a tc_env_scheme \<Rightarrow> nat \<Rightarrow> Type \<Rightarrow> ty option" where
  "checkTypeOfBinding cs typeVar type =
     (case type of
        None \<Rightarrow> None
      | Some t0 \<Rightarrow>
          (let t = simplifyType cs t0;
               referencedTypeVars = getTypeVariables t
           in if count_list referencedTypeVars typeVar \<noteq> 0 then None
              else if isTypeVariableType (getRValueType t) then None
              else Some t))"

subsection \<open>enumerateDirectSupertypes\<close>

text \<open>
  The four tests of the source run one after the other on the same type and each may
  push onto \<open>result\<close>; they are four functions here, concatenated in the source's
  order. \<^verbatim>\<open>getAs<TupleType>\<close>, \<^verbatim>\<open>getAs<FunctionType>\<close> and
  \<^verbatim>\<open>getAs<LValueType>\<close> are matches on the constructor. The source reads
  \<^verbatim>\<open>getFields()[scalarIdx]\<close> without a check of the upper bound; an index outside
  the tuple is undefined there and \<open>None\<close> here.
\<close>

fun supertypesOfTuple :: "'a tc_env_scheme \<Rightarrow> ty \<Rightarrow> ty list option" where
  "supertypesOfTuple cs (TupleType flds) =
     (let scalarIdx = getFieldForScalarInit cs flds
      in if scalarIdx \<ge> 0 then
           (if nat scalarIdx < length flds then
              (let elt = flds ! nat scalarIdx
               in if isVararg elt then Some [getVarargBaseTy elt]
                  else if getName elt \<noteq> [] then Some [getType elt]
                  else Some [])
            else None)
         else Some [])"
| "supertypesOfTuple cs t = Some []"

fun supertypesOfFunction :: "ty \<Rightarrow> ty list" where
  "supertypesOfFunction (FunctionType i r isAutoClosure) = (if isAutoClosure then [r] else [])"
| "supertypesOfFunction t = []"

definition supertypesOfClass :: "'a tc_env_scheme \<Rightarrow> ty \<Rightarrow> ty list" where
  "supertypesOfClass cs t =
     (if mayHaveSuperclass cs t then
        (case getSuperClassOf cs t of Some superclass \<Rightarrow> [superclass] | None \<Rightarrow> [])
      else [])"

fun supertypesOfLValue :: "ty \<Rightarrow> ty list" where
  "supertypesOfLValue (LValueType obj isImplicit) = (if isImplicit then [obj] else [])"
| "supertypesOfLValue t = []"

definition enumerateDirectSupertypes :: "'a tc_env_scheme \<Rightarrow> ty \<Rightarrow> ty list option" where
  "enumerateDirectSupertypes cs t =
     (case supertypesOfTuple cs t of
        None \<Rightarrow> None
      | Some result1 \<Rightarrow>
          Some (result1 @ supertypesOfFunction t @ supertypesOfClass cs t @ supertypesOfLValue t))"

subsection \<open>Constraints\<close>

text \<open>
  Modelled from the spec: the constraint representation (Constraint.h is not part of
  the sources). Section 3 of the specification lists the kinds; the unary predicates
  on one type are the single kind \<open>UnaryTypeProperty\<close>. A constraint carries its
  kind, its first and second type (null when it has none), its protocol, its nested
  constraints and its conversion restriction.
\<close>

datatype ConstraintKind =
    Bind | Equal | TrivialSubtype | Subtype | Conversion | ApplicableFunction
  | ConformsTo | SelfObjectOfProtocol
  | UnaryTypeProperty
  | ValueMember | TypeMember
  | Conjunction | Disjunction

datatype ConstraintClassification =
    Relational | TypeProperty | Member | ConjunctionClass | DisjunctionClass

datatype ConversionRestrictionKind =
    TupleToTuple | OptionalToOptional | OtherRestriction nat

datatype Constraint =
  Constraint (getKind: ConstraintKind) (getFirstType: Type) (getSecondType: Type)
    (getProtocol: protocol) (getNestedConstraints: "Constraint list")
    (getRestriction: "ConversionRestrictionKind option")

text \<open>
  Modelled from the spec: \<^verbatim>\<open>getClassification\<close>. The classifier of the source tests
  for \<^verbatim>\<open>ConformsTo\<close> and \<^verbatim>\<open>SelfObjectOfProtocol\<close> inside its \<^verbatim>\<open>Relational\<close> case, so
  the two conformance kinds are classified as relational.
\<close>

fun getClassification :: "ConstraintKind \<Rightarrow> ConstraintClassification" where
  "getClassification UnaryTypeProperty = TypeProperty"
| "getClassification ValueMember = Member"
| "getClassification TypeMember = Member"
| "getClassification Conjunction = ConjunctionClass"
| "getClassification Disjunction = DisjunctionClass"
| "getClassification k = Relational"

subsection \<open>The classifier: collectConstraintsForTypeVariables\<close>

text \<open>
  The per-variable summary (declared in ConstraintSystem.h, its fields as the solver
  uses them). Its field \<^verbatim>\<open>FullyBound\<close> is \<open>FullyBoundTVC\<close> here, since
  \<^verbatim>\<open>PotentialBindings\<close> below has a field of the same name.
\<close>

record TypeVariableConstraints =
  TypeVar :: nat
  FullyBoundTVC :: bool
  HasNonConcreteConstraints :: bool
  Below :: "(Constraint \<times> Type) list"
  Above :: "(Constraint \<times> Type) list"
  ConformsToConstraints :: "Constraint list"

definition newTypeVariableConstraints :: "nat \<Rightarrow> TypeVariableConstraints" where
  "newTypeVariableConstraints tv =
     \<lparr>TypeVar = tv, FullyBoundTVC = False, HasNonConcreteConstraints = False,
      Below = [], Above = [], ConformsToConstraints = []\<rparr>"

text \<open>
  \<^verbatim>\<open>getTVC(tv)\<close> of the source finds the summary of the representative of \<open>tv\<close>
  through a map from representatives to positions, pushing a new summary when there is
  none, and returns a reference that the caller updates. Here the update is passed in
  as \<open>f\<close>; the summaries are found by their \<open>TypeVar\<close>, one per representative.
\<close>

definition getTVC ::
  "'a tc_env_scheme \<Rightarrow> nat \<Rightarrow> (TypeVariableConstraints \<Rightarrow> TypeVariableConstraints) \<Rightarrow>
   TypeVariableConstraints list \<Rightarrow> TypeVariableConstraints list" where
  "getTVC cs tv f typeVarConstraints =
     (let r = getRepresentative cs tv
      in if r \<in> set (map TypeVar typeVarConstraints)
         then map (\<lambda>e. if TypeVar e = r then f e else e) typeVarConstraints
         else typeVarConstraints @ [f (newTypeVariableConstraints r)])"

text \<open>
  \<^verbatim>\<open>
  static bool typeVariablesIntersect(ConstraintSystem &cs, typeVars1, typeVars2) {
    if (typeVars1.empty() || typeVars2.empty()) return false;
    for (auto tv : typeVars1) typeVars1Set.insert(cs.getRepresentative(tv));
    for (auto tv : typeVars2)
      if (typeVars1Set.count(cs.getRepresentative(tv))) return true;
    return false;
  }
  \<close>
\<close>

definition typeVariablesIntersect :: "'a tc_env_scheme \<Rightarrow> nat list \<Rightarrow> nat list \<Rightarrow> bool" where
  "typeVariablesIntersect cs typeVars1 typeVars2 =
     (if typeVars1 = [] \<or> typeVars2 = [] then False
      else list_ex (\<lambda>tv. getRepresentative cs tv \<in> set (map (getRepresentative cs) typeVars1))
             typeVars2)"

text \<open>
  The walk aborts on a top-level conjunction (\<^verbatim>\<open>llvm_unreachable\<close>) and on the
  simplification of a null type (a null dereference in the source).
\<close>

datatype abort = Unreachable | NullType

record collect_state =
  typeVarConstraints :: "TypeVariableConstraints list"
  disjunctions :: "Constraint list"
  referencedTypeVars :: "nat list"

definition markFullyBound ::
  "'a tc_env_scheme \<Rightarrow> nat list \<Rightarrow> TypeVariableConstraints list \<Rightarrow> TypeVariableConstraints list" where
  "markFullyBound cs typeVars tvcs =
     foldl (\<lambda>acc typeVar. getTVC cs typeVar (\<lambda>e. e\<lparr>FullyBoundTVC := True\<rparr>) acc) tvcs typeVars"

text \<open>The type variables that one constraint nested in a disjunction references.\<close>

definition innerTypeVars :: "'a tc_env_scheme \<Rightarrow> Constraint \<Rightarrow> abort + nat list" where
  "innerTypeVars cs inner =
     (case getFirstType inner of
        None \<Rightarrow> Inl NullType
      | Some f \<Rightarrow>
          Inr (getTypeVariables (simplifyType cs f) @
               (case getSecondType inner of
                  None \<Rightarrow> []
                | Some second \<Rightarrow> getTypeVariables (simplifyType cs second))))"

fun collectInner :: "'a tc_env_scheme \<Rightarrow> Constraint list \<Rightarrow> nat list \<Rightarrow> abort + nat list" where
  "collectInner cs [] refs = Inr refs"
| "collectInner cs (inner # rest) refs =
     (case innerTypeVars cs inner of
        Inl e \<Rightarrow> Inl e
      | Inr tvs \<Rightarrow> collectInner cs rest (refs @ tvs))"

fun collectNested :: "'a tc_env_scheme \<Rightarrow> Constraint list \<Rightarrow> nat list \<Rightarrow> abort + nat list" where
  "collectNested cs [] refs = Inr refs"
| "collectNested cs (dis # rest) refs =
     (let innerConstraints =
            (if getKind dis = Conjunction then getNestedConstraints dis else [dis])
      in case collectInner cs innerConstraints refs of
           Inl e \<Rightarrow> Inl e
         | Inr refs' \<Rightarrow> collectNested cs rest refs')"

text \<open>
  The part of the loop body after the \<^verbatim>\<open>switch\<close>, reached by the relational
  constraints other than conformance and applicable-function constraints.
\<close>

definition collectRelational ::
  "'a tc_env_scheme \<Rightarrow> Constraint \<Rightarrow> ty \<Rightarrow> collect_state \<Rightarrow> abort + collect_state" where
  "collectRelational cs constraint first st =
     (case getSecondType constraint of
        None \<Rightarrow> Inl NullType
      | Some second0 \<Rightarrow>
          (let second = simplifyType cs second0;
               st1 = (case first of
                        TypeVariableType firstTV \<Rightarrow>
                          st\<lparr>typeVarConstraints :=
                               getTVC cs firstTV
                                 (\<lambda>e. e\<lparr>Above := Above e @ [(constraint, Some second)]\<rparr>)
                                 (typeVarConstraints st)\<rparr>
                      | _ \<Rightarrow>
                          st\<lparr>referencedTypeVars :=
                               referencedTypeVars st @ getTypeVariables first\<rparr>);
               st2 = (case second of
                        TypeVariableType secondTV \<Rightarrow>
                          st1\<lparr>typeVarConstraints :=
                                getTVC cs secondTV
                                  (\<lambda>e. e\<lparr>Below := Below e @ [(constraint, Some first)]\<rparr>)
                                  (typeVarConstraints st1)\<rparr>
                      | _ \<Rightarrow>
                          st1\<lparr>referencedTypeVars :=
                                referencedTypeVars st1 @ getTypeVariables second\<rparr>)
           in case (first, second) of
                (TypeVariableType firstTV, TypeVariableType secondTV) \<Rightarrow>
                  Inr (st2\<lparr>referencedTypeVars :=
                             referencedTypeVars st2 @ [firstTV, secondTV]\<rparr>)
              | _ \<Rightarrow> Inr st2))"

text \<open>One iteration of the loop over \<^verbatim>\<open>Constraints\<close>.\<close>

definition collectConstraint ::
  "'a tc_env_scheme \<Rightarrow> Constraint \<Rightarrow> collect_state \<Rightarrow> abort + collect_state" where
  "collectConstraint cs constraint st =
     (case getClassification (getKind constraint) of
        ConjunctionClass \<Rightarrow> Inl Unreachable
      | DisjunctionClass \<Rightarrow>
          (case collectNested cs (getNestedConstraints constraint) (referencedTypeVars st) of
             Inl e \<Rightarrow> Inl e
           | Inr refs \<Rightarrow>
               Inr (st\<lparr>disjunctions := disjunctions st @ [constraint],
                       referencedTypeVars := refs\<rparr>))
      | classification \<Rightarrow>
          (case getFirstType constraint of
             None \<Rightarrow> Inl NullType
           | Some first0 \<Rightarrow>
               (let first = simplifyType cs first0
                in case classification of
                     Relational \<Rightarrow>
                       if getKind constraint = ConformsTo \<or>
                          getKind constraint = SelfObjectOfProtocol
                       then (case first of
                               TypeVariableType firstTV \<Rightarrow>
                                 Inr (st\<lparr>typeVarConstraints :=
                                          getTVC cs firstTV
                                            (\<lambda>e. e\<lparr>ConformsToConstraints :=
                                                       ConformsToConstraints e @ [constraint]\<rparr>)
                                            (typeVarConstraints st)\<rparr>)
                             | _ \<Rightarrow> Inr st)
                       else if getKind constraint = ApplicableFunction
                       then (case getSecondType constraint of
                               None \<Rightarrow> Inl NullType
                             | Some second \<Rightarrow>
                                 Inr (st\<lparr>typeVarConstraints :=
                                          markFullyBound cs (getTypeVariables first)
                                            (typeVarConstraints st),
                                        referencedTypeVars :=
                                          referencedTypeVars st @
                                          getTypeVariables (simplifyType cs second)\<rparr>))
                       else collectRelational cs constraint first st
                   | TypeProperty \<Rightarrow>
                       if \<not> isTypeVariableType first
                       then Inr (st\<lparr>referencedTypeVars :=
                                     referencedTypeVars st @ getTypeVariables first\<rparr>)
                       else Inr st
                   | _ \<Rightarrow>
                       (case getSecondType constraint of
                          None \<Rightarrow> Inl NullType
                        | Some second \<Rightarrow>
                            (let baseTypeVars = getTypeVariables first;
                                 memberTypeVars = getTypeVariables (simplifyType cs second)
                             in if \<not> typeVariablesIntersect cs baseTypeVars memberTypeVars
                                then Inr (st\<lparr>typeVarConstraints :=
                                              markFullyBound cs memberTypeVars
                                                (typeVarConstraints st)\<rparr>)
                                else Inr (st\<lparr>referencedTypeVars :=
                                              referencedTypeVars st @ memberTypeVars\<rparr>))))))"

fun collectLoop ::
  "'a tc_env_scheme \<Rightarrow> Constraint list \<Rightarrow> collect_state \<Rightarrow> abort + collect_state" where
  "collectLoop cs [] st = Inr st"
| "collectLoop cs (constraint # rest) st =
     (case collectConstraint cs constraint st of
        Inl e \<Rightarrow> Inl e
      | Inr st' \<Rightarrow> collectLoop cs rest st')"

text \<open>
  The last loop: every referenced type variable not seen before marks the summary of
  its representative, when there is one.
\<close>

fun markReferenced ::
  "'a tc_env_scheme \<Rightarrow> nat list \<Rightarrow> nat list \<Rightarrow> TypeVariableConstraints list \<Rightarrow>
   TypeVariableConstraints list" where
  "markReferenced cs SeenVars [] tvcs = tvcs"
| "markReferenced cs SeenVars (tv # rest) tvcs =
     (if tv \<in> set SeenVars then markReferenced cs SeenVars rest tvcs
      else markReferenced cs (tv # SeenVars) rest
             (map (\<lambda>e. if TypeVar e = getRepresentative cs tv
                       then e\<lparr>HasNonConcreteConstraints := True\<rparr> else e) tvcs))"

text \<open>
  \<open>collectConstraintsForTypeVariables\<close> clears \<open>typeVarConstraints\<close> and appends to the
  caller's \<open>disjunctions\<close>; it returns the summaries and the disjunctions.
\<close>

definition collectConstraintsForTypeVariables ::
  "'a tc_env_scheme \<Rightarrow> Constraint list \<Rightarrow> Constraint list \<Rightarrow>
   abort + (TypeVariableConstraints list \<times> Constraint list)" where
  "collectConstraintsForTypeVariables cs Constraints disjunctions0 =
     (case collectLoop cs Constraints
             \<lparr>typeVarConstraints = [], disjunctions = disjunctions0, referencedTypeVars = []\<rparr> of
        Inl e \<Rightarrow> Inl e
      | Inr st \<Rightarrow>
          Inr (markReferenced cs [] (referencedTypeVars st) (typeVarConstraints st),
               disjunctions st))"

subsection \<open>PotentialBindings and its order\<close>

record PotentialBindings =
  Bindings :: "(ty \<times> bool) list"
  FullyBound :: bool
  InvolvesTypeVariables :: bool
  HasLiteralBindings :: bool

text \<open>
  \<^verbatim>\<open>
  friend bool operator<(const PotentialBindings &x, const PotentialBindings &y) {
    return std::make_tuple(x.FullyBound, x.InvolvesTypeVariables,
                           x.HasLiteralBindings, -x.Bindings.size())
      < std::make_tuple(y.FullyBound, y.InvolvesTypeVariables,
                        y.HasLiteralBindings, -y.Bindings.size());
  }
  \<close>
  \<^verbatim>\<open>size()\<close> is a \<^verbatim>\<open>size_t\<close>, an unsigned 64-bit integer on the compiler's hosts, so
  the negation wraps around: \<open>- n\<close> is \<open>2 ^ 64 - n\<close> for a positive \<open>n\<close> and \<open>0\<close> for
  \<open>0\<close>. The comparison of \<^verbatim>\<open>std::tuple\<close> is lexicographic, with \<open>False < True\<close> on
  \<^verbatim>\<open>bool\<close> and the unsigned order on \<^verbatim>\<open>size_t\<close>.
\<close>

definition negatedSize :: "PotentialBindings \<Rightarrow> 64 word" where
  "negatedSize x = - (word_of_nat (length (Bindings x)))"

definition tuple4_less ::
  "bool \<times> bool \<times> bool \<times> 64 word \<Rightarrow> bool \<times> bool \<times> bool \<times> 64 word \<Rightarrow> bool" where
  "tuple4_less a b =
     (case a of (a0, a1, a2, a3) \<Rightarrow> case b of (b0, b1, b2, b3) \<Rightarrow>
        a0 < b0 \<or> (\<not> b0 < a0 \<and>
          (a1 < b1 \<or> (\<not> b1 < a1 \<and>
            (a2 < b2 \<or> (\<not> b2 < a2 \<and> a3 < b3))))))"

definition less_PotentialBindings :: "PotentialBindings \<Rightarrow> PotentialBindings \<Rightarrow> bool" where
  "less_PotentialBindings x y =
     tuple4_less (FullyBound x, InvolvesTypeVariables x, HasLiteralBindings x, negatedSize x)
                 (FullyBound y, InvolvesTypeVariables y, HasLiteralBindings y, negatedSize y)"

text \<open>
  The order as the specification words it: lexicographic on
  \<open>(FullyBound, InvolvesTypeVariables, HasLiteralBindings, - |Bindings|)\<close>, false
  before true, a larger number of candidates better, the last component an integer.
\<close>

definition rankedBetter_spec :: "PotentialBindings \<Rightarrow> PotentialBindings \<Rightarrow> bool" where
  "rankedBetter_spec x y =
     (FullyBound x < FullyBound y \<or> (FullyBound x = FullyBound y \<and>
       (InvolvesTypeVariables x < InvolvesTypeVariables y \<or>
         (InvolvesTypeVariables x = InvolvesTypeVariables y \<and>
           (HasLiteralBindings x < HasLiteralBindings y \<or>
             (HasLiteralBindings x = HasLiteralBindings y \<and>
               - int (length (Bindings x)) < - int (length (Bindings y))))))))"

text \<open>
  The choice of the decision variable in \<^verbatim>\<open>solveSimplified\<close>, on the list of the
  potential bindings of the summaries (\<^verbatim>\<open>explicit operator bool\<close> is
  \<open>Bindings \<noteq> []\<close>):
  \<^verbatim>\<open>
    unsigned bestTypeVarIndex = 0;
    auto bestBindings = getPotentialBindings(*this, typeVarConstraints[0]);
    for (unsigned i = 1, n = typeVarConstraints.size(); i != n; ++i) {
      auto bindings = getPotentialBindings(*this, typeVarConstraints[i]);
      if (!bindings)
        continue;
      if (!bestBindings || bindings < bestBindings) {
        bestTypeVarIndex = i;
        bestBindings = std::move(bindings);
      }
    }
  \<close>
\<close>

fun pickBestLoop ::
  "nat \<Rightarrow> PotentialBindings list \<Rightarrow> nat \<times> PotentialBindings \<Rightarrow> nat \<times> PotentialBindings" where
  "pickBestLoop i [] best = best"
| "pickBestLoop i (bindings # rest) (bestTypeVarIndex, bestBindings) =
     (if Bindings bindings = [] then pickBestLoop (Suc i) rest (bestTypeVarIndex, bestBindings)
      else if Bindings bestBindings = [] \<or> less_PotentialBindings bindings bestBindings
           then pickBestLoop (Suc i) rest (i, bindings)
           else pickBestLoop (Suc i) rest (bestTypeVarIndex, bestBindings))"

definition pickBestBindings :: "PotentialBindings list \<Rightarrow> (nat \<times> PotentialBindings) option" where
  "pickBestBindings pbs =
     (case pbs of [] \<Rightarrow> None | first # rest \<Rightarrow> Some (pickBestLoop 1 rest (0, first)))"

subsection \<open>getPotentialBindings\<close>

text \<open>
  \<open>exactTypes\<close> is the set of canonical types already listed, kept as a list in the
  order of insertion (the source only tests membership and existence on it).
\<close>

record bindings_state =
  result :: PotentialBindings
  exactTypes :: "ty list"

text \<open>\<^verbatim>\<open>if (exactTypes.insert(type->getCanonicalType())) result.Bindings.push_back({type, open})\<close>\<close>

definition addBinding ::
  "'a tc_env_scheme \<Rightarrow> ty \<Rightarrow> bool \<Rightarrow> bool \<Rightarrow> bindings_state \<Rightarrow> bindings_state" where
  "addBinding cs type isOpen literal st =
     (let canon = getCanonicalType cs type
      in if canon \<in> set (exactTypes st) then st
         else \<lparr>result = (result st)\<lparr>Bindings := Bindings (result st) @ [(type, isOpen)],
                                    HasLiteralBindings :=
                                      (literal \<or> HasLiteralBindings (result st))\<rparr>,
               exactTypes = exactTypes st @ [canon]\<rparr>)"

definition setInvolvesTypeVariables :: "bindings_state \<Rightarrow> bindings_state" where
  "setInvolvesTypeVariables st = st\<lparr>result := (result st)\<lparr>InvolvesTypeVariables := True\<rparr>\<rparr>"

text \<open>The body of the loop over \<^verbatim>\<open>tvc.Below\<close>.\<close>

definition addBelow ::
  "'a tc_env_scheme \<Rightarrow> nat \<Rightarrow> bindings_state \<Rightarrow> Constraint \<times> Type \<Rightarrow> bindings_state" where
  "addBelow cs typeVar st arg =
     (case checkTypeOfBinding cs typeVar (snd arg) of
        Some type \<Rightarrow>
          addBinding cs type False False
            (if hasTypeVariable type then setInvolvesTypeVariables st else st)
      | None \<Rightarrow> setInvolvesTypeVariables st)"

text \<open>
  The body of the loop over \<^verbatim>\<open>tvc.Above\<close>: as for the lower bounds, and a conversion
  or subtype bound that is a tuple of one non-variadic element gives the element's type.
\<close>

fun singleElementType :: "ty \<Rightarrow> ty" where
  "singleElementType (TupleType [elt]) = (if \<not> isVararg elt then getType elt else TupleType [elt])"
| "singleElementType t = t"

definition addAbove ::
  "'a tc_env_scheme \<Rightarrow> nat \<Rightarrow> bindings_state \<Rightarrow> Constraint \<times> Type \<Rightarrow> bindings_state" where
  "addAbove cs typeVar st arg =
     (case checkTypeOfBinding cs typeVar (snd arg) of
        Some type \<Rightarrow>
          (let st1 = (if hasTypeVariable type then setInvolvesTypeVariables st else st);
               type1 = (if getKind (fst arg) = Conversion \<or> getKind (fst arg) = Subtype \<or>
                           getKind (fst arg) = TrivialSubtype
                        then singleElementType type else type)
           in addBinding cs type1 False False st1)
      | None \<Rightarrow> setInvolvesTypeVariables st)"

text \<open>The body of the loop over \<^verbatim>\<open>tvc.ConformsToConstraints\<close>.\<close>

definition addDefaultType ::
  "'a tc_env_scheme \<Rightarrow> bindings_state \<Rightarrow> Constraint \<Rightarrow> bindings_state" where
  "addDefaultType cs st constraint =
     (case getDefaultType cs (getProtocol constraint) of
        None \<Rightarrow> st
      | Some type \<Rightarrow>
          if \<not> isUnspecializedGeneric cs type then addBinding cs type True True st
          else
            (let nominal = getAnyNominal cs type;
                 matched = list_ex (\<lambda>exactType.
                             getAnyNominal cs exactType \<noteq> None \<and>
                             nominal = getAnyNominal cs exactType) (exactTypes st)
             in if \<not> matched
                then \<lparr>result = (result st)\<lparr>Bindings := Bindings (result st) @ [(type, True)],
                                           HasLiteralBindings := True\<rparr>,
                      exactTypes = (if getCanonicalType cs type \<in> set (exactTypes st)
                                    then exactTypes st
                                    else exactTypes st @ [getCanonicalType cs type])\<rparr>
                else st))"

definition getPotentialBindings ::
  "'a tc_env_scheme \<Rightarrow> TypeVariableConstraints \<Rightarrow> PotentialBindings" where
  "getPotentialBindings cs tvc =
     (let st0 = \<lparr>result = \<lparr>Bindings = [], FullyBound = FullyBoundTVC tvc,
                            InvolvesTypeVariables = HasNonConcreteConstraints tvc,
                            HasLiteralBindings = False\<rparr>,
                 exactTypes = []\<rparr>;
          st1 = foldl (addBelow cs (TypeVar tvc)) st0 (Below tvc);
          st2 = foldl (addAbove cs (TypeVar tvc)) st1 (Above tvc);
          st3 = foldl (addDefaultType cs) st2 (ConformsToConstraints tvc)
      in result st3)"

subsection \<open>tryTypeVariableBindings\<close>

text \<open>
  A run of the model ends in a result, in undefined behaviour of the source (a read
  outside an array, a null dereference) or, for the loops that need not end, without
  fuel.
\<close>

datatype 'a outcome = Returns 'a | UndefinedBehaviour | OutOfFuel

text \<open>
  The inner loop over the bindings of one round. \<open>solveBinding\<close> stands for what the
  source does between the construction of the \<^verbatim>\<open>SolverScope\<close> and its destruction at
  the end of the iteration: \<^verbatim>\<open>cs.addConstraint(ConstraintKind::Bind, typeVar, type)\<close>
  and the recursive \<^verbatim>\<open>cs.solve(solutions, allowFreeTypeVariables)\<close>, whose result
  (true for failure) it returns with the state that survives the scope.
  \<^verbatim>\<open>
    bool sawFirstLiteralConstraint = false;
    for (auto binding : bindings) {
      auto type = binding.first;
      if (!typeVar->getImpl().canBindToLValue())
        type = type->getRValueType();
      ConstraintSystem::SolverScope scope(cs);
      if (binding.second) {
        if (!sawFirstLiteralConstraint) {
          sawFirstLiteralConstraint = true;
          if (anySolved)
            break;
        }
        type = cs.openBindingType(type);
      }
      cs.addConstraint(ConstraintKind::Bind, typeVar, type);
      if (!cs.solve(solutions, allowFreeTypeVariables))
        anySolved = true;
    }
  \<close>
\<close>

fun tryBindings ::
  "'a tc_env_scheme \<Rightarrow> bool \<Rightarrow> ('st \<Rightarrow> ty \<Rightarrow> bool \<times> 'st) \<Rightarrow> (ty \<times> bool) list \<Rightarrow>
   bool \<Rightarrow> bool \<Rightarrow> 'st \<Rightarrow> bool \<times> 'st" where
  "tryBindings cs canBindToLValue solveBinding [] sawFirstLiteralConstraint anySolved st =
     (anySolved, st)"
| "tryBindings cs canBindToLValue solveBinding (binding # rest) sawFirstLiteralConstraint
     anySolved st =
     (let type = (if \<not> canBindToLValue then getRValueType (fst binding) else fst binding)
      in if snd binding \<and> \<not> sawFirstLiteralConstraint \<and> anySolved then (anySolved, st)
         else
           (let type1 = (if snd binding then openBindingType cs type else type);
                r = solveBinding st type1
            in tryBindings cs canBindToLValue solveBinding rest
                 (sawFirstLiteralConstraint \<or> snd binding) (anySolved \<or> \<not> fst r) (snd r)))"

text \<open>\<^verbatim>\<open>exploredTypes.insert(type->getCanonicalType())\<close>, on the list of explored types.\<close>

definition insertExplored :: "'a tc_env_scheme \<Rightarrow> ty list \<Rightarrow> ty \<Rightarrow> ty list" where
  "insertExplored cs explored type =
     (if getCanonicalType cs type \<in> set explored then explored
      else explored @ [getCanonicalType cs type])"

text \<open>
  The alternative literal types of the first round, for each conformance constraint
  whose protocol has a default type.
\<close>

definition addAlternative ::
  "'a tc_env_scheme \<Rightarrow> (ty \<times> bool) list \<times> ty list \<Rightarrow> ty \<Rightarrow> (ty \<times> bool) list \<times> ty list" where
  "addAlternative cs acc type =
     (if getCanonicalType cs type \<in> set (snd acc) then acc
      else (fst acc @ [(type, True)], snd acc @ [getCanonicalType cs type]))"

definition addAlternatives ::
  "'a tc_env_scheme \<Rightarrow> (ty \<times> bool) list \<times> ty list \<Rightarrow> Constraint \<Rightarrow>
   (ty \<times> bool) list \<times> ty list" where
  "addAlternatives cs acc constraint =
     (let proto = getProtocol constraint
      in if getDefaultType cs proto = None then acc
         else foldl (addAlternative cs) acc (getAlternativeLiteralTypes cs proto))"

text \<open>
  The supertypes of the bindings of the round that was just tried:
  \<^verbatim>\<open>
    for (auto binding : bindings) {
      auto type = binding.first;
      for (auto supertype : cs.enumerateDirectSupertypes(type)) {
        auto simpleSuper = checkTypeOfBinding(cs, typeVar, supertype);
        if (!simpleSuper)
          continue;
        if (exploredTypes.insert((*simpleSuper)->getCanonicalType()))
          newBindings.push_back({*simpleSuper, false});
      }
    }
  \<close>
\<close>

definition addSupertype ::
  "'a tc_env_scheme \<Rightarrow> nat \<Rightarrow> (ty \<times> bool) list \<times> ty list \<Rightarrow> ty \<Rightarrow>
   (ty \<times> bool) list \<times> ty list" where
  "addSupertype cs typeVar acc supertype =
     (case checkTypeOfBinding cs typeVar (Some supertype) of
        None \<Rightarrow> acc
      | Some simpleSuper \<Rightarrow>
          if getCanonicalType cs simpleSuper \<in> set (snd acc) then acc
          else (fst acc @ [(simpleSuper, False)], snd acc @ [getCanonicalType cs simpleSuper]))"

fun supertypeBindings ::
  "'a tc_env_scheme \<Rightarrow> nat \<Rightarrow> (ty \<times> bool) list \<Rightarrow> (ty \<times> bool) list \<times> ty list \<Rightarrow>
   ((ty \<times> bool) list \<times> ty list) option" where
  "supertypeBindings cs typeVar [] acc = Some acc"
| "supertypeBindings cs typeVar (binding # rest) acc =
     (case enumerateDirectSupertypes cs (fst binding) of
        None \<Rightarrow> None
      | Some supers \<Rightarrow>
          supertypeBindings cs typeVar rest (foldl (addSupertype cs typeVar) acc supers))"

text \<open>
  The bindings of the next round, computed when no binding of this round gave a
  solution: the new bindings and the explored types, \<open>None\<close> for undefined behaviour.
\<close>

definition nextBindings ::
  "'a tc_env_scheme \<Rightarrow> TypeVariableConstraints \<Rightarrow> nat \<Rightarrow> (ty \<times> bool) list \<Rightarrow> ty list \<Rightarrow>
   ((ty \<times> bool) list \<times> ty list) option" where
  "nextBindings cs tvc tryCount bindings exploredTypes =
     (if tryCount = 0 then
        (let explored1 = foldl (insertExplored cs) exploredTypes (map fst bindings);
             alt = foldl (addAlternatives cs) ([], explored1) (ConformsToConstraints tvc)
         in if fst alt \<noteq> [] then Some alt
            else supertypeBindings cs (TypeVar tvc) bindings alt)
      else supertypeBindings cs (TypeVar tvc) bindings ([], exploredTypes))"



subsection \<open>The state of the constraint system\<close>

text \<open>
  A constraint in the lists of the solver is a node of an intrusive list, known by its
  address: \<open>constraint_ptr\<close>. The score is a tuple of counters compared
  lexicographically. A type variable is either bound to a fixed type or points to its
  parent in the union-find forest; \<^verbatim>\<open>SavedTypeVariableBinding\<close> records a variable
  with that state.
\<close>

type_synonym constraint_ptr = nat

type_synonym Score = "nat list"

datatype ParentOrFixed = Parent nat | Fixed ty

record SolverState =
  depth :: "32 word"
  savedBindings :: "(nat \<times> ParentOrFixed) list"
  retiredConstraints :: "constraint_ptr list"
  constraintRestrictions :: "(ty \<times> ty \<times> ConversionRestrictionKind) list"
  generatedConstraints :: "constraint_ptr set"
  BestScore :: "Score option"
  NumStatesExplored :: "32 word"
  NumSimplifiedConstraints :: "32 word"
  NumUnsimplifiedConstraints :: "32 word"

text \<open>
  \<open>resolvedOverloadSets\<close> is the head of the linked stack of resolved overloads, the
  list of its items from the head. \<open>CG\<close> is the constraint graph, null or the set of
  the constraints registered in it. \<open>solverState\<close> is null outside \<^verbatim>\<open>solve\<close>.
  \<open>generatedConstraints\<close> of the solver state is the set that the pointer of the
  source points to, the set of the innermost scope.
\<close>

record ConstraintSystem =
  resolvedOverloadSets :: "nat list"
  TypeVariables :: "nat list"
  typeVariableBindings :: "nat \<Rightarrow> ParentOrFixed"
  Constraints :: "constraint_ptr list"
  Worklist :: "constraint_ptr list"
  isActive :: "constraint_ptr \<Rightarrow> bool"
  CG :: "constraint_ptr set option"
  failedConstraint :: "constraint_ptr option"
  CurrentScore :: Score
  solverState :: "SolverState option"

text \<open>
  Modelled from the spec: \<^verbatim>\<open>worseThanBestSolution\<close> (declared in ConstraintSystem.h):
  true iff a best score exists and the current score is greater than or equal to it.
\<close>

definition worseThanBestSolution :: "ConstraintSystem \<Rightarrow> bool" where
  "worseThanBestSolution cs =
     (case solverState cs of
        None \<Rightarrow> False
      | Some ss \<Rightarrow> (case BestScore ss of None \<Rightarrow> False | Some best \<Rightarrow> best \<le> CurrentScore cs))"

subsection \<open>SolverScope\<close>

text \<open>
  The fields of a scope. \<open>firstRetired\<close> is an iterator into the retired list: the
  node it points to, or \<open>None\<close> for the end of the list. The scope's own
  \<^verbatim>\<open>generatedConstraints\<close> is the set of the solver state while the scope is the
  innermost one. \<open>CGScope\<close> is present when there is a constraint graph.
\<close>

record SolverScope =
  resolvedOverloadSets_saved :: "nat list"
  numTypeVariables :: nat
  numSavedBindings :: nat
  firstRetired :: "constraint_ptr option"
  numConstraintRestrictions :: nat
  oldGeneratedConstraints :: "constraint_ptr set"
  PreviousScore :: Score
  CGScope :: "constraint_ptr set option"

text \<open>
  \<^verbatim>\<open>
  ConstraintSystem::SolverScope::SolverScope(ConstraintSystem &cs) : cs(cs) {
    ++cs.solverState->depth;
    resolvedOverloadSets = cs.resolvedOverloadSets;
    numTypeVariables = cs.TypeVariables.size();
    numSavedBindings = cs.solverState->savedBindings.size();
    firstRetired = cs.solverState->retiredConstraints.begin();
    numConstraintRestrictions = cs.solverState->constraintRestrictions.size();
    oldGeneratedConstraints = cs.solverState->generatedConstraints;
    cs.solverState->generatedConstraints = &generatedConstraints;
    PreviousScore = cs.CurrentScore;
    ++cs.solverState->NumStatesExplored;
    if (cs.CG)
      CGScope.emplace(*cs.CG);
  }
  \<close>
  \<open>None\<close> is the dereference of a null \<open>solverState\<close>.
\<close>

definition SolverScope_enter :: "ConstraintSystem \<Rightarrow> (SolverScope \<times> ConstraintSystem) option" where
  "SolverScope_enter cs =
     (case solverState cs of
        None \<Rightarrow> None
      | Some ss \<Rightarrow>
          Some (\<lparr>resolvedOverloadSets_saved = resolvedOverloadSets cs,
                 numTypeVariables = length (TypeVariables cs),
                 numSavedBindings = length (savedBindings ss),
                 firstRetired = (case retiredConstraints ss of [] \<Rightarrow> None | c # _ \<Rightarrow> Some c),
                 numConstraintRestrictions = length (constraintRestrictions ss),
                 oldGeneratedConstraints = generatedConstraints ss,
                 PreviousScore = CurrentScore cs,
                 CGScope = CG cs\<rparr>,
                cs\<lparr>solverState :=
                     Some (ss\<lparr>depth := depth ss + 1,
                              generatedConstraints := {},
                              NumStatesExplored := NumStatesExplored ss + 1\<rparr>)\<rparr>))"

text \<open>
  \<^verbatim>\<open>truncate(vec, newSize)\<close> asserts \<^verbatim>\<open>newSize <= vec.size()\<close> and erases the end;
  a larger \<open>newSize\<close> is undefined (\<open>None\<close>).
\<close>

definition truncate_vec :: "'a list \<Rightarrow> nat \<Rightarrow> 'a list option" where
  "truncate_vec vec newSize = (if newSize \<le> length vec then Some (take newSize vec) else None)"

text \<open>
  \<^verbatim>\<open>
  void ConstraintSystem::restoreTypeVariableBindings(unsigned numBindings) {
    auto &savedBindings = *getSavedBindings();
    std::for_each(savedBindings.rbegin(), savedBindings.rbegin() + numBindings,
                  [](SavedTypeVariableBinding &saved) { saved.restore(); });
    savedBindings.erase(savedBindings.end() - numBindings, savedBindings.end());
  }
  \<close>
  Modelled from the spec: \<^verbatim>\<open>SavedTypeVariableBinding::restore\<close>, which writes the
  recorded prior state back to the variable (section 3, saved bindings journal).
  More bindings than the journal holds are undefined (\<open>None\<close>), as is a null
  solver state.
\<close>

definition restoreBinding ::
  "(nat \<Rightarrow> ParentOrFixed) \<Rightarrow> nat \<times> ParentOrFixed \<Rightarrow> (nat \<Rightarrow> ParentOrFixed)" where
  "restoreBinding b saved = b(fst saved := snd saved)"

definition restoreTypeVariableBindings :: "nat \<Rightarrow> ConstraintSystem \<Rightarrow> ConstraintSystem option" where
  "restoreTypeVariableBindings numBindings cs =
     (case solverState cs of
        None \<Rightarrow> None
      | Some ss \<Rightarrow>
          if numBindings \<le> length (savedBindings ss)
          then Some (cs\<lparr>typeVariableBindings :=
                          foldl restoreBinding (typeVariableBindings cs)
                            (take numBindings (rev (savedBindings ss))),
                        solverState :=
                          Some (ss\<lparr>savedBindings :=
                                     take (length (savedBindings ss) - numBindings)
                                       (savedBindings ss)\<rparr>)\<rparr>)
          else None)"

text \<open>
  \<^verbatim>\<open>
  ConstraintSystem::SolverScope::~SolverScope() {
    --cs.solverState->depth;
    cs.resolvedOverloadSets = resolvedOverloadSets;
    truncate(cs.TypeVariables, numTypeVariables);
    cs.restoreTypeVariableBindings(cs.solverState->savedBindings.size() -
                                     numSavedBindings);
    cs.Constraints.splice(cs.Constraints.end(),
                          cs.solverState->retiredConstraints,
                          cs.solverState->retiredConstraints.begin(),
                          firstRetired);
    cs.Constraints.erase_if([&](Constraint &c) {
                              return generatedConstraints.count(&c) > 0;
                            });
    truncate(cs.solverState->constraintRestrictions, numConstraintRestrictions);
    cs.solverState->generatedConstraints = oldGeneratedConstraints;
    cs.CurrentScore = PreviousScore;
    cs.failedConstraint = nullptr;
  }
  \<close>
  The range \<^verbatim>\<open>[begin, firstRetired)\<close> of the retired list is its longest prefix without
  the node \<open>firstRetired\<close>. The subtraction of the sizes is unsigned: a journal shorter
  than at entry gives a number of bindings beyond the journal, which is undefined.
  Modelled from the spec: the destructor of the member \<open>CGScope\<close>, which runs after
  this body and rolls back the changes of the constraint graph (section 6).
\<close>

definition SolverScope_exit :: "SolverScope \<Rightarrow> ConstraintSystem \<Rightarrow> ConstraintSystem option" where
  "SolverScope_exit scope cs =
     (case solverState cs of
        None \<Rightarrow> None
      | Some ss \<Rightarrow>
          (case truncate_vec (TypeVariables cs) (numTypeVariables scope) of
             None \<Rightarrow> None
           | Some typeVars \<Rightarrow>
               if length (savedBindings ss) < numSavedBindings scope then None
               else
                 (case restoreTypeVariableBindings
                         (length (savedBindings ss) - numSavedBindings scope)
                         (cs\<lparr>resolvedOverloadSets := resolvedOverloadSets_saved scope,
                              TypeVariables := typeVars,
                              solverState := Some (ss\<lparr>depth := depth ss - 1\<rparr>)\<rparr>) of
                    None \<Rightarrow> None
                  | Some cs1 \<Rightarrow>
                      (case solverState cs1 of
                         None \<Rightarrow> None
                       | Some ss1 \<Rightarrow>
                           (case truncate_vec (constraintRestrictions ss1)
                                   (numConstraintRestrictions scope) of
                              None \<Rightarrow> None
                            | Some restrictions \<Rightarrow>
                                Some (cs1\<lparr>Constraints :=
                                            filter (\<lambda>c. c \<notin> generatedConstraints ss1)
                                              (Constraints cs1 @
                                               takeWhile (\<lambda>c. Some c \<noteq> firstRetired scope)
                                                 (retiredConstraints ss1)),
                                          CurrentScore := PreviousScore scope,
                                          failedConstraint := None,
                                          CG := (case CGScope scope of
                                                   None \<Rightarrow> CG cs1 | Some g \<Rightarrow> Some g),
                                          solverState :=
                                            Some (ss1\<lparr>retiredConstraints :=
                                                        dropWhile (\<lambda>c. Some c \<noteq> firstRetired scope)
                                                          (retiredConstraints ss1),
                                                      constraintRestrictions := restrictions,
                                                      generatedConstraints :=
                                                        oldGeneratedConstraints scope\<rparr>)\<rparr>))))))"

subsection \<open>What the solver does inside a scope\<close>

text \<open>
  The mutations that the solver performs between the construction of a scope and its
  destruction, each with the place of CSSolver.cpp (or of the specification, for the
  collaborators) that performs it:
  \<^item> \<open>PushResolvedOverload\<close>: \<^verbatim>\<open>applySolution\<close> links a new item in front of
    \<^verbatim>\<open>resolvedOverloadSets\<close>;
  \<^item> \<open>AddTypeVariable\<close>: \<^verbatim>\<open>TypeVariables.push_back\<close> in \<^verbatim>\<open>applySolution\<close>;
  \<^item> \<open>AssignFixedType\<close>: a change of the state of a type variable, which appends the
    variable with its prior state to the journal (section 4.1 of the specification);
  \<^item> \<open>RetireConstraint\<close>: \<^verbatim>\<open>simplify\<close> splices one constraint of the active list to
    the front of the retired list;
  \<^item> \<open>RetireAllConstraints\<close>: \<^verbatim>\<open>simplify\<close>, after a failure, splices the whole active
    list to the front of the retired list;
  \<^item> \<open>GenerateConstraint c pushed\<close>: \<^verbatim>\<open>solveSimplified\<close> inserts the alternative \<open>c\<close>
    of a disjunction into \<^verbatim>\<open>generatedConstraints\<close>, after pushing it onto the active
    list when it was left unsolved (\<open>pushed\<close>);
  \<^item> \<open>AddConstraintRestriction\<close>: \<^verbatim>\<open>constraintRestrictions.push_back\<close> in
    \<^verbatim>\<open>applySolution\<close>;
  \<^item> \<open>SetCurrentScore\<close>: a new \<^verbatim>\<open>CurrentScore\<close>;
  \<^item> \<open>SetFailedConstraint\<close>: \<^verbatim>\<open>if (!failedConstraint) failedConstraint = constraint\<close>;
  \<^item> \<open>GraphAddConstraint\<close>, \<open>GraphRemoveConstraint\<close>: \<^verbatim>\<open>CG->addConstraint\<close>,
    \<^verbatim>\<open>CG->removeConstraint\<close>;
  \<^item> \<open>NestedScope\<close>: an inner scope, constructed, used and destroyed.

  A constraint is a node of one intrusive list at a time. An operation that would
  splice a node out of a list it is not in, or link a node that is already in a list,
  and a dereference of a null pointer have no result (\<open>None\<close>). A generated
  constraint is a new constraint: it is in neither list before.
\<close>

datatype scope_op =
    PushResolvedOverload nat
  | AddTypeVariable nat
  | AssignFixedType nat ParentOrFixed
  | RetireConstraint constraint_ptr
  | RetireAllConstraints
  | GenerateConstraint constraint_ptr bool
  | AddConstraintRestriction "ty \<times> ty \<times> ConversionRestrictionKind"
  | SetCurrentScore Score
  | SetFailedConstraint constraint_ptr
  | GraphAddConstraint constraint_ptr
  | GraphRemoveConstraint constraint_ptr
  | NestedScope "scope_op list"

definition assignFixedType :: "nat \<Rightarrow> ParentOrFixed \<Rightarrow> ConstraintSystem \<Rightarrow> ConstraintSystem option" where
  "assignFixedType tv new cs =
     (case solverState cs of
        None \<Rightarrow> None
      | Some ss \<Rightarrow>
          Some (cs\<lparr>typeVariableBindings := (typeVariableBindings cs)(tv := new),
                   solverState :=
                     Some (ss\<lparr>savedBindings :=
                                savedBindings ss @ [(tv, typeVariableBindings cs tv)]\<rparr>)\<rparr>))"

definition retireConstraint :: "constraint_ptr \<Rightarrow> ConstraintSystem \<Rightarrow> ConstraintSystem option" where
  "retireConstraint c cs =
     (case solverState cs of
        None \<Rightarrow> None
      | Some ss \<Rightarrow>
          if c \<in> set (Constraints cs)
          then Some (cs\<lparr>Constraints := remove1 c (Constraints cs),
                        solverState :=
                          Some (ss\<lparr>retiredConstraints := c # retiredConstraints ss\<rparr>)\<rparr>)
          else None)"

definition retireAllConstraints :: "ConstraintSystem \<Rightarrow> ConstraintSystem option" where
  "retireAllConstraints cs =
     (case solverState cs of
        None \<Rightarrow> None
      | Some ss \<Rightarrow>
          Some (cs\<lparr>Constraints := [],
                   solverState :=
                     Some (ss\<lparr>retiredConstraints :=
                                Constraints cs @ retiredConstraints ss\<rparr>)\<rparr>))"

definition generateConstraint ::
  "constraint_ptr \<Rightarrow> bool \<Rightarrow> ConstraintSystem \<Rightarrow> ConstraintSystem option" where
  "generateConstraint c pushed cs =
     (case solverState cs of
        None \<Rightarrow> None
      | Some ss \<Rightarrow>
          if c \<in> set (Constraints cs) \<or> c \<in> set (retiredConstraints ss) then None
          else Some (cs\<lparr>Constraints := (if pushed then Constraints cs @ [c] else Constraints cs),
                        solverState :=
                          Some (ss\<lparr>generatedConstraints :=
                                     insert c (generatedConstraints ss)\<rparr>)\<rparr>))"

definition addConstraintRestriction ::
  "ty \<times> ty \<times> ConversionRestrictionKind \<Rightarrow> ConstraintSystem \<Rightarrow> ConstraintSystem option" where
  "addConstraintRestriction r cs =
     (case solverState cs of
        None \<Rightarrow> None
      | Some ss \<Rightarrow>
          Some (cs\<lparr>solverState :=
                     Some (ss\<lparr>constraintRestrictions := constraintRestrictions ss @ [r]\<rparr>)\<rparr>))"

definition setFailedConstraint :: "constraint_ptr \<Rightarrow> ConstraintSystem \<Rightarrow> ConstraintSystem" where
  "setFailedConstraint c cs =
     (if failedConstraint cs = None then cs\<lparr>failedConstraint := Some c\<rparr> else cs)"

definition graphAddConstraint :: "constraint_ptr \<Rightarrow> ConstraintSystem \<Rightarrow> ConstraintSystem option" where
  "graphAddConstraint c cs =
     (case CG cs of None \<Rightarrow> None | Some g \<Rightarrow> Some (cs\<lparr>CG := Some (insert c g)\<rparr>))"

definition graphRemoveConstraint :: "constraint_ptr \<Rightarrow> ConstraintSystem \<Rightarrow> ConstraintSystem option" where
  "graphRemoveConstraint c cs =
     (case CG cs of None \<Rightarrow> None | Some g \<Rightarrow> Some (cs\<lparr>CG := Some (g - {c})\<rparr>))"

fun runOp :: "scope_op \<Rightarrow> ConstraintSystem \<Rightarrow> ConstraintSystem option"
  and runOps :: "scope_op list \<Rightarrow> ConstraintSystem \<Rightarrow> ConstraintSystem option" where
  "runOp (PushResolvedOverload item) cs =
     Some (cs\<lparr>resolvedOverloadSets := item # resolvedOverloadSets cs\<rparr>)"
| "runOp (AddTypeVariable tv) cs = Some (cs\<lparr>TypeVariables := TypeVariables cs @ [tv]\<rparr>)"
| "runOp (AssignFixedType tv new) cs = assignFixedType tv new cs"
| "runOp (RetireConstraint c) cs = retireConstraint c cs"
| "runOp RetireAllConstraints cs = retireAllConstraints cs"
| "runOp (GenerateConstraint c pushed) cs = generateConstraint c pushed cs"
| "runOp (AddConstraintRestriction r) cs = addConstraintRestriction r cs"
| "runOp (SetCurrentScore sc) cs = Some (cs\<lparr>CurrentScore := sc\<rparr>)"
| "runOp (SetFailedConstraint c) cs = Some (setFailedConstraint c cs)"
| "runOp (GraphAddConstraint c) cs = graphAddConstraint c cs"
| "runOp (GraphRemoveConstraint c) cs = graphRemoveConstraint c cs"
| "runOp (NestedScope ops) cs =
     (case SolverScope_enter cs of
        None \<Rightarrow> None
      | Some entered \<Rightarrow>
          (case runOps ops (snd entered) of
             None \<Rightarrow> None
           | Some cs' \<Rightarrow> SolverScope_exit (fst entered) cs'))"
| "runOps [] cs = Some cs"
| "runOps (op # ops) cs =
     (case runOp op cs of None \<Rightarrow> None | Some cs' \<Rightarrow> runOps ops cs')"

text \<open>A scope around a sequence of operations: construction, the operations, destruction.\<close>

definition withSolverScope :: "scope_op list \<Rightarrow> ConstraintSystem \<Rightarrow> ConstraintSystem option" where
  "withSolverScope ops cs = runOp (NestedScope ops) cs"

subsection \<open>simplify, with a constraint graph\<close>

text \<open>
  The worklist implementation of \<^verbatim>\<open>simplify\<close>, the block under \<^verbatim>\<open>if (CG)\<close>. The
  per-constraint simplifier \<^verbatim>\<open>simplifyConstraint\<close> lives in another file: it is the
  parameter \<open>simplifyConstraint\<close>, which returns the kind of solution and the state
  it leaves. It may push onto the worklist, so the loop takes fuel, one unit for a
  constraint taken from the worklist.
\<close>

datatype SolutionKind = Error | Solved | Unsolved

type_synonym simplifier =
  "ConstraintSystem \<Rightarrow> constraint_ptr \<Rightarrow> SolutionKind \<times> ConstraintSystem"

text \<open>
  The \<^verbatim>\<open>switch\<close> on the result of the simplifier and \<^verbatim>\<open>constraint->setActive(false)\<close>.
  \<open>retired\<close> is the local \<^verbatim>\<open>llvm::SetVector\<close> \<open>retiredConstraints\<close>. The counters are
  reached through \<open>solverState\<close> and the graph through \<open>CG\<close> without a check: a null
  pointer there is undefined (\<open>None\<close>).
  \<^verbatim>\<open>
      switch (simplifyConstraint(*constraint)) {
      case SolutionKind::Error:
        if (!failedConstraint) {
          failedConstraint = constraint;
        }
        break;
      case SolutionKind::Solved:
        ++solverState->NumSimplifiedConstraints;
        retiredConstraints.insert(constraint);
        CG->removeConstraint(constraint);
        break;
      case SolutionKind::Unsolved:
        ++solverState->NumUnsimplifiedConstraints;
        break;
      }
      constraint->setActive(false);
  \<close>
\<close>

definition setInactive :: "constraint_ptr \<Rightarrow> ConstraintSystem \<Rightarrow> ConstraintSystem" where
  "setInactive c cs = cs\<lparr>isActive := (isActive cs)(c := False)\<rparr>"

definition simplifyOne ::
  "simplifier \<Rightarrow> constraint_ptr \<Rightarrow> constraint_ptr list \<Rightarrow> ConstraintSystem \<Rightarrow>
   (constraint_ptr list \<times> ConstraintSystem) option" where
  "simplifyOne simplifyConstraint constraint retired cs =
     (let r = simplifyConstraint cs constraint; cs1 = snd r
      in case fst r of
           Error \<Rightarrow> Some (retired, setInactive constraint (setFailedConstraint constraint cs1))
         | Solved \<Rightarrow>
             (case solverState cs1 of
                None \<Rightarrow> None
              | Some ss \<Rightarrow>
                  (case graphRemoveConstraint constraint
                          (cs1\<lparr>solverState :=
                                 Some (ss\<lparr>NumSimplifiedConstraints :=
                                            NumSimplifiedConstraints ss + 1\<rparr>)\<rparr>) of
                     None \<Rightarrow> None
                   | Some cs2 \<Rightarrow>
                       Some (if constraint \<in> set retired then retired else retired @ [constraint],
                             setInactive constraint cs2)))
         | Unsolved \<Rightarrow>
             (case solverState cs1 of
                None \<Rightarrow> None
              | Some ss \<Rightarrow>
                  Some (retired,
                        setInactive constraint
                          (cs1\<lparr>solverState :=
                                 Some (ss\<lparr>NumUnsimplifiedConstraints :=
                                            NumUnsimplifiedConstraints ss + 1\<rparr>)\<rparr>))))"

text \<open>
  The block under \<^verbatim>\<open>if (failedConstraint)\<close>:
  \<^verbatim>\<open>
        while (!Worklist.empty()) {
          auto constraint = Worklist.front();
          Worklist.pop_front();
          constraint->setActive(false);
        }
        if (solverState)
          solverState->retiredConstraints.splice(
            solverState->retiredConstraints.begin(), Constraints);
        else
          Constraints.clear();
        return true;
  \<close>
\<close>

definition retireAfterFailure :: "ConstraintSystem \<Rightarrow> ConstraintSystem" where
  "retireAfterFailure cs =
     (let cs1 = cs\<lparr>isActive := (\<lambda>c. if c \<in> set (Worklist cs) then False else isActive cs c),
                   Worklist := []\<rparr>
      in case solverState cs1 of
           Some ss \<Rightarrow>
             cs1\<lparr>Constraints := [],
                 solverState :=
                   Some (ss\<lparr>retiredConstraints := Constraints cs1 @ retiredConstraints ss\<rparr>)\<rparr>
         | None \<Rightarrow> cs1\<lparr>Constraints := []\<rparr>)"

text \<open>
  The loop after the worklist is empty: every constraint of the active list that is
  in \<open>retired\<close> is erased when there is no solver state, and spliced to the front of
  the retired list otherwise, one after the other in the order of the active list.
\<close>

definition transferRetired :: "constraint_ptr list \<Rightarrow> ConstraintSystem \<Rightarrow> ConstraintSystem" where
  "transferRetired retired cs =
     (case solverState cs of
        None \<Rightarrow> cs\<lparr>Constraints := filter (\<lambda>c. c \<notin> set retired) (Constraints cs)\<rparr>
      | Some ss \<Rightarrow>
          cs\<lparr>Constraints := filter (\<lambda>c. c \<notin> set retired) (Constraints cs),
             solverState :=
               Some (ss\<lparr>retiredConstraints :=
                          rev (filter (\<lambda>c. c \<in> set retired) (Constraints cs)) @
                          retiredConstraints ss\<rparr>)\<rparr>)"

text \<open>
  The loop. Its result is the value that \<^verbatim>\<open>simplify\<close> returns (true for failure),
  the local set \<open>retiredConstraints\<close> as it is when the function returns, and the state.
\<close>

fun simplifyWorklist ::
  "nat \<Rightarrow> simplifier \<Rightarrow> constraint_ptr list \<Rightarrow> ConstraintSystem \<Rightarrow>
   (bool \<times> constraint_ptr list \<times> ConstraintSystem) outcome" where
  "simplifyWorklist 0 simplifyConstraint retired cs = OutOfFuel"
| "simplifyWorklist (Suc fuel) simplifyConstraint retired cs =
     (case Worklist cs of
        [] \<Rightarrow> Returns (False, retired, transferRetired retired cs)
      | constraint # rest \<Rightarrow>
          (case simplifyOne simplifyConstraint constraint retired (cs\<lparr>Worklist := rest\<rparr>) of
             None \<Rightarrow> UndefinedBehaviour
           | Some r \<Rightarrow>
               if failedConstraint (snd r) \<noteq> None
               then Returns (True, fst r, retireAfterFailure (snd r))
               else if worseThanBestSolution (snd r) then Returns (True, fst r, snd r)
               else simplifyWorklist fuel simplifyConstraint (fst r) (snd r)))"

text \<open>
  \<^verbatim>\<open>simplify\<close> with a constraint graph. The loop without a graph, which inserts the
  constraints again through \<^verbatim>\<open>addConstraint\<close>, is the parameter \<open>simplifyWithoutGraph\<close>.
\<close>

definition simplify ::
  "nat \<Rightarrow> simplifier \<Rightarrow> (ConstraintSystem \<Rightarrow> (bool \<times> ConstraintSystem) outcome) \<Rightarrow>
   ConstraintSystem \<Rightarrow> (bool \<times> ConstraintSystem) outcome" where
  "simplify fuel simplifyConstraint simplifyWithoutGraph cs =
     (if CG cs \<noteq> None
      then (case simplifyWorklist fuel simplifyConstraint [] cs of
              Returns r \<Rightarrow> Returns (fst r, snd (snd r))
            | UndefinedBehaviour \<Rightarrow> UndefinedBehaviour
            | OutOfFuel \<Rightarrow> OutOfFuel)
      else simplifyWithoutGraph cs)"

subsection \<open>solve, the top-level call\<close>

text \<open>
  \<^verbatim>\<open>
  bool ConstraintSystem::solve(SmallVectorImpl<Solution> &solutions,
                               FreeTypeVariableBinding allowFreeTypeVariables) {
    if (!solverState) {
      SolverState state(*this);
      this->solverState = &state;
      solve(solutions, allowFreeTypeVariables);
      if (solutions.size() > 1) {
        if (auto best = findBestSolution(solutions, /*minimize=*/false)) {
          if (*best != 0)
            solutions[0] = std::move(solutions[*best]);
          solutions.erase(solutions.begin() + 1, solutions.end());
        }
      }
      this->solverState = nullptr;
      return solutions.size() != 1;
    }
    ...
  }
  \<close>
  The rest of the function, which runs when there is a solver state, is the parameter
  \<open>solveWithState\<close>: the recursive call of the top-level branch enters it, since the
  solver state was just set. \<open>findBestSolution\<close> is the ranking of the type checker;
  an index beyond the solutions is undefined. The solutions are of any type.
\<close>

definition newSolverState :: SolverState where
  "newSolverState =
     \<lparr>depth = 0, savedBindings = [], retiredConstraints = [], constraintRestrictions = [],
      generatedConstraints = {}, BestScore = None, NumStatesExplored = 0,
      NumSimplifiedConstraints = 0, NumUnsimplifiedConstraints = 0\<rparr>"

definition keepBest ::
  "('sol list \<Rightarrow> bool \<Rightarrow> nat option) \<Rightarrow> 'sol list \<Rightarrow> 'sol list option" where
  "keepBest findBestSolution solutions =
     (if length solutions > 1 then
        (case findBestSolution solutions False of
           Some best \<Rightarrow>
             if best < length solutions
             then Some (take 1 (if best \<noteq> 0 then solutions[0 := solutions ! best]
                                else solutions))
             else None
         | None \<Rightarrow> Some solutions)
      else Some solutions)"

definition solve ::
  "(ConstraintSystem \<Rightarrow> 'sol list \<Rightarrow> bool \<times> ConstraintSystem \<times> 'sol list) \<Rightarrow>
   ('sol list \<Rightarrow> bool \<Rightarrow> nat option) \<Rightarrow> ConstraintSystem \<Rightarrow> 'sol list \<Rightarrow>
   (bool \<times> ConstraintSystem \<times> 'sol list) outcome" where
  "solve solveWithState findBestSolution cs solutions =
     (if solverState cs = None then
        (let r = solveWithState (cs\<lparr>solverState := Some newSolverState\<rparr>) solutions
         in case keepBest findBestSolution (snd (snd r)) of
              None \<Rightarrow> UndefinedBehaviour
            | Some solutions1 \<Rightarrow>
                Returns (length solutions1 \<noteq> 1, (fst (snd r))\<lparr>solverState := None\<rparr>,
                         solutions1))
      else Returns (solveWithState cs solutions))"

subsection \<open>The specification's wording, and the relations of the proofs\<close>

text \<open>
  The condition under which the specification has \<^verbatim>\<open>checkTypeOfBinding\<close> return
  nothing for the variable \<open>v\<close> and the candidate type \<open>t\<close>: the simplified candidate
  references the variable, or its rvalue is a bare type variable.
\<close>

definition referencesOrBareVariable_spec :: "'a tc_env_scheme \<Rightarrow> nat \<Rightarrow> ty \<Rightarrow> bool" where
  "referencesOrBareVariable_spec cs v t =
     (v \<in> set (getTypeVariables (simplifyType cs t)) \<or>
      isTypeVariableType (getRValueType (simplifyType cs t)))"

text \<open>
  The direct supertypes as the specification lists them: \<open>s\<close> is the base type of
  the scalar-init element of a tuple (the vararg base type of a variadic element, the
  type of a labelled one, nothing for an unlabelled one), the result of an
  auto-closure function type, the superclass of a type that may have one, or the
  object type of an l-value with implicit qualifiers.
\<close>

definition directSupertype_spec :: "'a tc_env_scheme \<Rightarrow> ty \<Rightarrow> ty \<Rightarrow> bool" where
  "directSupertype_spec cs t s =
     ((case t of
         TupleType flds \<Rightarrow>
           0 \<le> getFieldForScalarInit cs flds \<and>
           (let elt = flds ! nat (getFieldForScalarInit cs flds)
            in if isVararg elt then s = getVarargBaseTy elt
               else getName elt \<noteq> [] \<and> s = getType elt)
       | _ \<Rightarrow> False) \<or>
      (case t of FunctionType i r isAutoClosure \<Rightarrow> isAutoClosure \<and> s = r | _ \<Rightarrow> False) \<or>
      (mayHaveSuperclass cs t \<and> getSuperClassOf cs t = Some s) \<or>
      (case t of LValueType obj isImplicit \<Rightarrow> isImplicit \<and> s = obj | _ \<Rightarrow> False))"

text \<open>The index of the scalar-init field of a tuple lies inside the tuple.\<close>

definition scalarIndexInRange :: "'a tc_env_scheme \<Rightarrow> ty \<Rightarrow> bool" where
  "scalarIndexInRange cs t =
     (case t of
        TupleType flds \<Rightarrow> getFieldForScalarInit cs flds < int (length flds)
      | _ \<Rightarrow> True)"

text \<open>
  The candidates that the specification names for a round after the first: the direct
  supertypes of the given bindings that \<^verbatim>\<open>checkTypeOfBinding\<close> accepts, simplified, in
  the order of enumeration.
\<close>

definition acceptedSupertypes :: "'a tc_env_scheme \<Rightarrow> nat \<Rightarrow> (ty \<times> bool) list \<Rightarrow> ty list" where
  "acceptedSupertypes cs typeVar bindings =
     concat (map (\<lambda>binding.
                    List.map_filter (\<lambda>supertype. checkTypeOfBinding cs typeVar (Some supertype))
                      (case enumerateDirectSupertypes cs (fst binding) of
                         Some supers \<Rightarrow> supers | None \<Rightarrow> []))
                 bindings)"

text \<open>
  The insertion of an accepted supertype into the new bindings, unless its canonical
  type was explored: the second half of \<open>addSupertype\<close>, named for the proofs.
\<close>

definition addNew :: "'a tc_env_scheme \<Rightarrow> (ty \<times> bool) list \<times> ty list \<Rightarrow> ty \<Rightarrow> (ty \<times> bool) list \<times> ty list" where
  "addNew cs acc s =
     (if getCanonicalType cs s \<in> set (snd acc) then acc
      else (fst acc @ [(s, False)], snd acc @ [getCanonicalType cs s]))"

text \<open>
  The deduplication by canonical form against the explored types, as a function of
  its own: a candidate is kept, not to be opened, unless its canonical type is among
  the explored types or is that of a candidate kept before it.
\<close>

fun dedupNew :: "'a tc_env_scheme \<Rightarrow> ty list \<Rightarrow> ty list \<Rightarrow> (ty \<times> bool) list" where
  "dedupNew cs explored [] = []"
| "dedupNew cs explored (x # xs) =
     (if getCanonicalType cs x \<in> set explored then dedupNew cs explored xs
      else (x, False) # dedupNew cs (explored @ [getCanonicalType cs x]) xs)"

text \<open>
  The rounds of a run of \<^verbatim>\<open>tryTypeVariableBindings\<close>, in order: the bindings that the
  round tries, the explored types and the state at the start of the round. A round is
  followed by another one when none of its bindings gave a solution and the new
  bindings computed after it are not empty. \<open>listedTypes\<close> gives the types listed in
  the bindings of the given rounds.
\<close>

fun roundsTried ::
  "nat \<Rightarrow> 'a tc_env_scheme \<Rightarrow> bool \<Rightarrow> ('st \<Rightarrow> ty \<Rightarrow> bool \<times> 'st) \<Rightarrow> TypeVariableConstraints \<Rightarrow>
   nat \<Rightarrow> (ty \<times> bool) list \<Rightarrow> ty list \<Rightarrow> 'st \<Rightarrow> ((ty \<times> bool) list \<times> ty list \<times> 'st) list" where
  "roundsTried 0 cs canBindToLValue solveBinding tvc tryCount bindings exploredTypes st = []"
| "roundsTried (Suc fuel) cs canBindToLValue solveBinding tvc tryCount bindings exploredTypes st =
     (if bindings = [] then []
      else (bindings, exploredTypes, st) #
        (let r = tryBindings cs canBindToLValue solveBinding bindings False False st
         in if fst r then []
            else (case nextBindings cs tvc tryCount bindings exploredTypes of
                    None \<Rightarrow> []
                  | Some new \<Rightarrow>
                      roundsTried fuel cs canBindToLValue solveBinding tvc (Suc tryCount)
                        (fst new) (snd new) (snd r))))"


text \<open>
  The retired list of the solver state, when there is one, and the contract of the
  simplifier in section 6 of the specification: its effects are confined to the
  substitution, the journal, the score and the activation of constraints, so it
  leaves the active list, the retired list and the constraints of the graph alone.
\<close>

definition retiredList :: "ConstraintSystem \<Rightarrow> constraint_ptr list option" where
  "retiredList cs = map_option retiredConstraints (solverState cs)"

definition confined :: "simplifier \<Rightarrow> bool" where
  "confined simplifyConstraint =
     (\<forall>cs c. Constraints (snd (simplifyConstraint cs c)) = Constraints cs \<and>
             retiredList (snd (simplifyConstraint cs c)) = retiredList cs \<and>
             CG (snd (simplifyConstraint cs c)) = CG cs)"

text \<open>
  The calls of the simplifier in a pass of the worklist loop, in order: the constraint
  taken from the worklist, the answer of the simplifier and the state that the
  simplifier leaves. The pass takes the next constraint from the worklist unless a
  constraint has failed or the score is worse than the best one. \<open>reportedSolved\<close>
  gives the constraints for which the answer was \<open>Solved\<close>.
\<close>

fun simplifierAnswers ::
  "nat \<Rightarrow> simplifier \<Rightarrow> constraint_ptr list \<Rightarrow> ConstraintSystem \<Rightarrow>
   (constraint_ptr \<times> SolutionKind \<times> ConstraintSystem) list" where
  "simplifierAnswers 0 simplifyConstraint retired cs = []"
| "simplifierAnswers (Suc fuel) simplifyConstraint retired cs =
     (case Worklist cs of
        [] \<Rightarrow> []
      | constraint # rest \<Rightarrow>
          (constraint, simplifyConstraint (cs\<lparr>Worklist := rest\<rparr>) constraint) #
          (case simplifyOne simplifyConstraint constraint retired (cs\<lparr>Worklist := rest\<rparr>) of
             None \<Rightarrow> []
           | Some r \<Rightarrow>
               if failedConstraint (snd r) \<noteq> None \<or> worseThanBestSolution (snd r) then []
               else simplifierAnswers fuel simplifyConstraint (fst r) (snd r)))"

definition reportedSolved ::
  "(constraint_ptr \<times> SolutionKind \<times> ConstraintSystem) list \<Rightarrow> constraint_ptr list" where
  "reportedSolved answers = map fst (filter (\<lambda>a. fst (snd a) = Solved) answers)"

text \<open>
  The simplifier activates dependents through the constraint graph (section 6 of the
  specification): what it puts on the worklist is a constraint of the graph.
\<close>

definition activatesFromGraph :: "simplifier \<Rightarrow> bool" where
  "activatesFromGraph simplifyConstraint =
     (\<forall>cs c. set (Worklist (snd (simplifyConstraint cs c))) \<subseteq>
             set (Worklist cs) \<union> (case CG cs of None \<Rightarrow> {} | Some g \<Rightarrow> g))"

text \<open>
  The state \<open>cs'\<close> in which the specification leaves a pass that failed on
  \<open>constraint\<close>, where \<open>afterSimplifier\<close> is the state that the simplifier left when
  it rejected the constraint: the failed constraint is recorded, unless one was
  recorded before; the worklist is empty, and the constraint and the constraints that
  were on the worklist are inactive; the active list is empty, and its constraints are
  at the front of the retired list, when there is a solver state.
\<close>

definition failedPass_spec ::
  "constraint_ptr \<Rightarrow> ConstraintSystem \<Rightarrow> ConstraintSystem \<Rightarrow> bool" where
  "failedPass_spec constraint afterSimplifier cs' =
     (failedConstraint cs' =
        (if failedConstraint afterSimplifier = None then Some constraint
         else failedConstraint afterSimplifier) \<and>
      Worklist cs' = [] \<and>
      (\<forall>c. isActive cs' c =
             (c \<noteq> constraint \<and> c \<notin> set (Worklist afterSimplifier) \<and> isActive afterSimplifier c)) \<and>
      Constraints cs' = [] \<and>
      (case solverState afterSimplifier of
         None \<Rightarrow> solverState cs' = None
       | Some ss \<Rightarrow>
           solverState cs' =
             Some (ss\<lparr>retiredConstraints := Constraints afterSimplifier @ retiredConstraints ss\<rparr>)))"

text \<open>
  The replay of a suffix of the journal in reverse, and the two relations of the
  proof that a scope restores the state: \<open>inScope base cs\<close> holds of the states \<open>cs\<close>
  that the solver reaches inside a scope constructed in the state \<open>base\<close>, and
  \<open>restored base cs\<close> of the state after its destruction.
\<close>

definition undoBindings ::
  "(nat \<times> ParentOrFixed) list \<Rightarrow> (nat \<Rightarrow> ParentOrFixed) \<Rightarrow> (nat \<Rightarrow> ParentOrFixed)" where
  "undoBindings journal b = foldl restoreBinding b (rev journal)"

definition inScope :: "ConstraintSystem \<Rightarrow> ConstraintSystem \<Rightarrow> bool" where
  "inScope base cs =
     (\<exists>ssBase ssCur typeVars journal restrictions newlyRetired.
        solverState base = Some ssBase \<and> solverState cs = Some ssCur \<and>
        TypeVariables cs = TypeVariables base @ typeVars \<and>
        savedBindings ssCur = savedBindings ssBase @ journal \<and>
        undoBindings journal (typeVariableBindings cs) = typeVariableBindings base \<and>
        constraintRestrictions ssCur = constraintRestrictions ssBase @ restrictions \<and>
        retiredConstraints ssCur = newlyRetired @ retiredConstraints ssBase \<and>
        distinct (Constraints cs @ retiredConstraints ssCur) \<and>
        {c \<in> set (Constraints cs) \<union> set newlyRetired. c \<notin> generatedConstraints ssCur} =
          set (Constraints base) \<and>
        depth ssCur = depth ssBase + 1 \<and>
        (CG base = None \<longrightarrow> CG cs = None))"

definition restored :: "ConstraintSystem \<Rightarrow> ConstraintSystem \<Rightarrow> bool" where
  "restored base cs =
     (\<exists>ssBase ssCur.
        solverState base = Some ssBase \<and> solverState cs = Some ssCur \<and>
        resolvedOverloadSets cs = resolvedOverloadSets base \<and>
        TypeVariables cs = TypeVariables base \<and>
        typeVariableBindings cs = typeVariableBindings base \<and>
        savedBindings ssCur = savedBindings ssBase \<and>
        retiredConstraints ssCur = retiredConstraints ssBase \<and>
        constraintRestrictions ssCur = constraintRestrictions ssBase \<and>
        generatedConstraints ssCur = generatedConstraints ssBase \<and>
        depth ssCur = depth ssBase \<and>
        CurrentScore cs = CurrentScore base \<and>
        failedConstraint cs = None \<and>
        CG cs = CG base \<and>
        set (Constraints cs) = set (Constraints base) \<and>
        distinct (Constraints cs))"

subsection \<open>Examples\<close>

text \<open>
  No substitution (every type is simplified and canonical as it is), a class \<open>Sub\<close>
  with the superclass \<open>Super\<close>, a literal protocol \<open>P\<close> with the default type \<open>Int\<close>
  and the alternative literal type \<open>Int8\<close>, and tuples of one field initializable
  from a scalar.
\<close>

definition Int_ty :: ty where "Int_ty = NominalType ''Int'' []"
definition Sub_ty :: ty where "Sub_ty = NominalType ''Sub'' []"

definition exampleEnv :: tc_env where
  "exampleEnv =
     \<lparr>simplifyType = (\<lambda>t. t),
      getRepresentative = (\<lambda>v. v),
      getCanonicalType = (\<lambda>t. t),
      getFieldForScalarInit = (\<lambda>flds. if length flds = 1 then 0 else - 1),
      mayHaveSuperclass = (\<lambda>t. t = NominalType ''Sub'' [] \<or> t = NominalType ''Super'' []),
      getSuperClassOf = (\<lambda>t. if t = NominalType ''Sub'' [] then Some (NominalType ''Super'' [])
                               else None),
      getDefaultType = (\<lambda>p. if p = ''P'' then Some (NominalType ''Int'' []) else None),
      isUnspecializedGeneric = (\<lambda>t. False),
      getAnyNominal = (\<lambda>t. case t of NominalType n args \<Rightarrow> Some n | _ \<Rightarrow> None),
      getAlternativeLiteralTypes = (\<lambda>p. if p = ''P'' then [NominalType ''Int8'' []] else []),
      openBindingType = (\<lambda>t. t)\<rparr>"

text \<open>Three sets of potential bindings that differ in the number of bindings only.\<close>

definition noBindings :: PotentialBindings where
  "noBindings = \<lparr>Bindings = [], FullyBound = False, InvolvesTypeVariables = False,
                  HasLiteralBindings = False\<rparr>"

definition oneBinding :: PotentialBindings where
  "oneBinding = \<lparr>Bindings = [(Int_ty, False)], FullyBound = False,
                  InvolvesTypeVariables = False, HasLiteralBindings = False\<rparr>"

definition twoBindings :: PotentialBindings where
  "twoBindings = \<lparr>Bindings = [(Int_ty, False), (Sub_ty, False)], FullyBound = False,
                   InvolvesTypeVariables = False, HasLiteralBindings = False\<rparr>"

text \<open>
  A summary of the variable \<open>0\<close> with one lower bound that mentions the variable
  itself, and no other constraint.
\<close>

definition recursiveBound :: TypeVariableConstraints where
  "recursiveBound =
     \<lparr>TypeVar = 0, FullyBoundTVC = False, HasNonConcreteConstraints = False,
      Below = [(Constraint Subtype (Some (FunctionType Int_ty (TypeVariableType 0) False))
                  (Some (TypeVariableType 0)) [] [] None,
                Some (FunctionType Int_ty (TypeVariableType 0) False))],
      Above = [], ConformsToConstraints = []\<rparr>"

text \<open>
  A type-property constraint on the bare variable \<open>0\<close>, a conformance constraint
  that gives the variable a summary, and a type-property constraint on a function
  type that mentions the variable.
\<close>

definition typePropertyOfVariable :: Constraint where
  "typePropertyOfVariable =
     Constraint UnaryTypeProperty (Some (TypeVariableType 0)) None [] [] None"

definition conformanceOfVariable :: Constraint where
  "conformanceOfVariable =
     Constraint ConformsTo (Some (TypeVariableType 0)) None ''P'' [] None"

definition typePropertyOfFunction :: Constraint where
  "typePropertyOfFunction =
     Constraint UnaryTypeProperty (Some (FunctionType Int_ty (TypeVariableType 0) False)) None [] [] None"






text \<open>A constraint system without constraints, type variables, graph or solver state.\<close>

definition emptySystem :: ConstraintSystem where
  "emptySystem =
     \<lparr>resolvedOverloadSets = [], TypeVariables = [], typeVariableBindings = Parent,
      Constraints = [], Worklist = [], isActive = (\<lambda>c. False), CG = None,
      failedConstraint = None, CurrentScore = [], solverState = None\<rparr>"

text \<open>A search that finds the two solutions 10 and 20, and a ranking that prefers the greatest.\<close>

definition twoSolutions :: "ConstraintSystem \<Rightarrow> nat list \<Rightarrow> bool \<times> ConstraintSystem \<times> nat list" where
  "twoSolutions cs solutions = (False, cs, solutions @ [10, 20])"

definition noSolutions :: "ConstraintSystem \<Rightarrow> nat list \<Rightarrow> bool \<times> ConstraintSystem \<times> nat list" where
  "noSolutions cs solutions = (True, cs, solutions)"

definition preferLast :: "nat list \<Rightarrow> bool \<Rightarrow> nat option" where
  "preferLast solutions minimize = (if solutions = [] then None else Some (length solutions - 1))"

definition ambiguous :: "nat list \<Rightarrow> bool \<Rightarrow> nat option" where
  "ambiguous solutions minimize = None"

text \<open>
  A system with a constraint graph, three constraints and two of them on the
  worklist, with a simplifier that leaves the constraint \<open>1\<close> unsolved and rejects
  the constraint \<open>2\<close>, which it is given in the state \<open>afterUnsolved\<close>; and the
  same system with a best score, with a simplifier that solves every constraint and
  raises the score to the best score on the constraint \<open>2\<close>, which leaves the state
  \<open>afterSecondSolved\<close>.
\<close>

definition graphSystem :: ConstraintSystem where
  "graphSystem =
     \<lparr>resolvedOverloadSets = [], TypeVariables = [], typeVariableBindings = Parent,
      Constraints = [1, 2, 3], Worklist = [1, 2], isActive = (\<lambda>c. c = 1 \<or> c = 2),
      CG = Some {1, 2, 3}, failedConstraint = None, CurrentScore = [0],
      solverState = Some newSolverState\<rparr>"

definition failsOnTwo :: simplifier where
  "failsOnTwo cs c = (if c = 2 then Error else Unsolved, cs)"

definition afterUnsolved :: ConstraintSystem where
  "afterUnsolved =
     setInactive 1
       (graphSystem\<lparr>Worklist := [],
          solverState := Some (newSolverState\<lparr>NumUnsimplifiedConstraints := 1\<rparr>)\<rparr>)"

definition prunedSystem :: ConstraintSystem where
  "prunedSystem =
     \<lparr>resolvedOverloadSets = [], TypeVariables = [], typeVariableBindings = Parent,
      Constraints = [1, 2, 3], Worklist = [1, 2], isActive = (\<lambda>c. c = 1 \<or> c = 2),
      CG = Some {1, 2, 3}, failedConstraint = None, CurrentScore = [0],
      solverState = Some (newSolverState\<lparr>BestScore := Some [1]\<rparr>)\<rparr>"

definition solvesThenScores :: simplifier where
  "solvesThenScores cs c = (Solved, if c = 2 then cs\<lparr>CurrentScore := [1]\<rparr> else cs)"

definition afterSecondSolved :: ConstraintSystem where
  "afterSecondSolved =
     setInactive 2
       (setInactive 1
          (prunedSystem\<lparr>Worklist := [], CurrentScore := [1],
             solverState := Some (newSolverState\<lparr>BestScore := Some [1],
                                                 NumSimplifiedConstraints := 2\<rparr>),
             CG := Some ({1, 2, 3} - {1} - {2})\<rparr>))"

text \<open>
  The operations of a branch that fails: a constraint is retired, an alternative is
  generated and pushed, a type variable is bound, a constraint fails and the active
  list is retired as a whole.
\<close>

definition failingBranch :: "scope_op list" where
  "failingBranch =
     [RetireConstraint 2, GenerateConstraint 7 True, AssignFixedType 0 (Fixed Int_ty),
      SetFailedConstraint 7, RetireAllConstraints]"

section \<open>Properties\<close>

subsection \<open>checkTypeOfBinding\<close>

lemma checkTypeOfBinding_null: "checkTypeOfBinding cs v None = None"
  by (simp add: checkTypeOfBinding_def)

text \<open>
  Claim C4: for every type variable \<open>v\<close> and candidate type \<open>t\<close>,
  \<^verbatim>\<open>checkTypeOfBinding\<close> returns nothing exactly when the simplified \<open>t\<close> references
  \<open>v\<close> among its type variables or the rvalue of the simplified \<open>t\<close> is a bare type
  variable, and returns the simplified \<open>t\<close> in every other case. A candidate is a
  type: every call passes a bound or a supertype, never the null \<^verbatim>\<open>Type\<close>, for which
  the guard at the head of the function returns nothing.
\<close>

theorem checkTypeOfBinding_cases:
  "checkTypeOfBinding cs v (Some t) =
     (if referencesOrBareVariable_spec cs v t then None else Some (simplifyType cs t))"
  by (simp add: checkTypeOfBinding_def referencesOrBareVariable_spec_def Let_def
      count_list_0_iff)

subsection \<open>enumerateDirectSupertypes\<close>

lemma supertypesOfTuple_spec:
  assumes "scalarIndexInRange cs t"
  shows "\<exists>r. supertypesOfTuple cs t = Some r \<and>
           (\<forall>s. s \<in> set r \<longleftrightarrow>
              (case t of
                 TupleType flds \<Rightarrow>
                   0 \<le> getFieldForScalarInit cs flds \<and>
                   (let elt = flds ! nat (getFieldForScalarInit cs flds)
                    in if isVararg elt then s = getVarargBaseTy elt
                       else getName elt \<noteq> [] \<and> s = getType elt)
               | _ \<Rightarrow> False))"
proof (cases t)
  case (TupleType flds)
  with assms have "getFieldForScalarInit cs flds < int (length flds)"
    by (simp add: scalarIndexInRange_def)
  then have "0 \<le> getFieldForScalarInit cs flds \<Longrightarrow> nat (getFieldForScalarInit cs flds) < length flds"
    by simp
  with TupleType show ?thesis by (auto simp add: Let_def)
qed auto

lemma supertypesOfFunction_spec:
  "s \<in> set (supertypesOfFunction t) \<longleftrightarrow>
     (case t of FunctionType i r isAutoClosure \<Rightarrow> isAutoClosure \<and> s = r | _ \<Rightarrow> False)"
  by (cases t) auto

lemma supertypesOfClass_spec:
  "s \<in> set (supertypesOfClass cs t) \<longleftrightarrow> (mayHaveSuperclass cs t \<and> getSuperClassOf cs t = Some s)"
proof (cases "mayHaveSuperclass cs t")
  case True
  show ?thesis
  proof (cases "getSuperClassOf cs t")
    case None
    with True show ?thesis by (simp add: supertypesOfClass_def)
  next
    case (Some a)
    with True have "supertypesOfClass cs t = [a]" by (simp add: supertypesOfClass_def)
    with True Some show ?thesis by auto
  qed
next
  case False
  then show ?thesis by (simp add: supertypesOfClass_def)
qed

lemma supertypesOfLValue_spec:
  "s \<in> set (supertypesOfLValue t) \<longleftrightarrow>
     (case t of LValueType obj isImplicit \<Rightarrow> isImplicit \<and> s = obj | _ \<Rightarrow> False)"
  by (cases t) auto

lemma enumerateDirectSupertypes_total:
  assumes "scalarIndexInRange cs t"
  shows "\<exists>r. enumerateDirectSupertypes cs t = Some r"
  using supertypesOfTuple_spec [OF assms] by (auto simp add: enumerateDirectSupertypes_def)

text \<open>
  Claim C8: for every input type \<open>t\<close> (with the index of its scalar-init field inside
  the tuple, the one assumption the source makes of \<^verbatim>\<open>getFieldForScalarInit\<close>),
  \<^verbatim>\<open>enumerateDirectSupertypes\<close> returns, and yields exactly the types that the
  specification lists: the base type of the scalar-init element of a tuple (the vararg
  base type of a variadic field, the type of a labelled field, nothing for an
  unlabelled one), the result of an auto-closure function type, the superclass of a
  type that may have one and has one, and the object type of an l-value with implicit
  qualifiers.
\<close>

theorem enumerateDirectSupertypes_exact:
  assumes "scalarIndexInRange cs t"
  shows "\<exists>r. enumerateDirectSupertypes cs t = Some r \<and>
           (\<forall>s. s \<in> set r \<longleftrightarrow> directSupertype_spec cs t s)"
proof -
  from supertypesOfTuple_spec [OF assms] obtain r1 where
    r1: "supertypesOfTuple cs t = Some r1"
    and m1: "\<And>s. s \<in> set r1 \<longleftrightarrow>
              (case t of
                 TupleType flds \<Rightarrow>
                   0 \<le> getFieldForScalarInit cs flds \<and>
                   (let elt = flds ! nat (getFieldForScalarInit cs flds)
                    in if isVararg elt then s = getVarargBaseTy elt
                       else getName elt \<noteq> [] \<and> s = getType elt)
               | _ \<Rightarrow> False)"
    by blast
  have "enumerateDirectSupertypes cs t =
          Some (r1 @ supertypesOfFunction t @ supertypesOfClass cs t @ supertypesOfLValue t)"
    by (simp add: enumerateDirectSupertypes_def r1)
  moreover have "\<And>s. s \<in> set (r1 @ supertypesOfFunction t @ supertypesOfClass cs t @
                        supertypesOfLValue t) \<longleftrightarrow> directSupertype_spec cs t s"
    unfolding directSupertype_spec_def set_append Un_iff m1
      supertypesOfFunction_spec supertypesOfClass_spec supertypesOfLValue_spec
    by simp
  ultimately show ?thesis by blast
qed

theorem enumerateDirectSupertypes_exact_witness:
  "scalarIndexInRange exampleEnv (TupleType [TupleTypeElt ''x'' Int_ty None]) \<and>
   enumerateDirectSupertypes exampleEnv (TupleType [TupleTypeElt ''x'' Int_ty None]) =
     Some [Int_ty] \<and>
   directSupertype_spec exampleEnv (TupleType [TupleTypeElt ''x'' Int_ty None]) Int_ty"
proof -
  have inRange: "scalarIndexInRange exampleEnv (TupleType [TupleTypeElt ''x'' Int_ty None])"
    by (simp add: scalarIndexInRange_def exampleEnv_def)
  have run: "enumerateDirectSupertypes exampleEnv (TupleType [TupleTypeElt ''x'' Int_ty None]) =
      Some [Int_ty]"
    by (simp add: enumerateDirectSupertypes_def exampleEnv_def supertypesOfClass_def Int_ty_def)
  from enumerateDirectSupertypes_exact [OF inRange] run
  have "directSupertype_spec exampleEnv (TupleType [TupleTypeElt ''x'' Int_ty None]) Int_ty"
    by auto
  with inRange run show ?thesis by simp
qed

subsection \<open>The order of PotentialBindings\<close>

lemma unat_neg_of_nat:
  fixes n :: nat
  assumes "0 < n" "n < 2 ^ 64"
  shows "unat (- (word_of_nat n :: 64 word)) = 2 ^ 64 - n"
proof -
  have u: "unat (word_of_nat n :: 64 word) = n"
    using assms by (simp add: unat_of_nat take_bit_nat_eq_self)
  have "unat (0 - (word_of_nat n :: 64 word)) =
        (if unat (word_of_nat n :: 64 word) \<le> unat (0::64 word)
         then unat (0::64 word) - unat (word_of_nat n :: 64 word)
         else unat (0::64 word) + 2 ^ size (0::64 word) - unat (word_of_nat n :: 64 word))"
    by (rule unat_sub_if_size)
  then show ?thesis using u assms by (simp add: word_size)
qed

lemma neg_less_iff:
  fixes n m :: nat
  assumes "0 < n" "n < 2 ^ 64" "0 < m" "m < 2 ^ 64"
  shows "(- (word_of_nat n :: 64 word) < - word_of_nat m) \<longleftrightarrow> m < n"
proof -
  have "unat (- (word_of_nat n :: 64 word)) = 2 ^ 64 - n"
    and "unat (- (word_of_nat m :: 64 word)) = 2 ^ 64 - m"
    using assms by (simp_all add: unat_neg_of_nat)
  then show ?thesis
    using assms unfolding word_less_nat_alt by simp arith
qed

lemma zero_less_minus_one: "(0 :: 64 word) < - 1"
  by (simp add: word_neq_0_conv [symmetric])

lemma less_PotentialBindings_nonempty:
  assumes "Bindings x \<noteq> []" "Bindings y \<noteq> []"
    "length (Bindings x) < 2 ^ 64" "length (Bindings y) < 2 ^ 64"
  shows "less_PotentialBindings x y \<longleftrightarrow> rankedBetter_spec x y"
proof -
  have "negatedSize x < negatedSize y \<longleftrightarrow> length (Bindings y) < length (Bindings x)"
    unfolding negatedSize_def using assms by (intro neg_less_iff) simp_all
  then show ?thesis
    by (auto simp add: less_PotentialBindings_def rankedBetter_spec_def tuple4_less_def)
qed

lemma tuple4_less_trans:
  "tuple4_less a b \<Longrightarrow> tuple4_less b c \<Longrightarrow> tuple4_less a c"
  by (cases a, cases b, cases c) (auto simp add: tuple4_less_def)

lemma tuple4_less_irrefl: "\<not> tuple4_less a a"
  by (cases a) (auto simp add: tuple4_less_def)

lemma less_PotentialBindings_trans:
  "less_PotentialBindings x y \<Longrightarrow> less_PotentialBindings y z \<Longrightarrow> less_PotentialBindings x z"
  unfolding less_PotentialBindings_def by (rule tuple4_less_trans)

lemma less_PotentialBindings_irrefl: "\<not> less_PotentialBindings x x"
  unfolding less_PotentialBindings_def by (rule tuple4_less_irrefl)

text \<open>
  The loop keeps, among the sets seen so far that are not empty, one that no other
  of them is better than.
\<close>

lemma pickBestLoop_minimal:
  assumes "pickBestLoop i rest (bi, bb) = (ri, rb)"
    and "\<forall>p\<in>S. Bindings p \<noteq> [] \<longrightarrow> Bindings bb \<noteq> [] \<and> \<not> less_PotentialBindings p bb"
  shows "\<forall>p\<in>S \<union> set rest.
           Bindings p \<noteq> [] \<longrightarrow> Bindings rb \<noteq> [] \<and> \<not> less_PotentialBindings p rb"
  using assms
proof (induction rest arbitrary: i bi bb S)
  case Nil
  then show ?case by simp
next
  case (Cons b rest)
  show ?case
  proof (cases "Bindings b = []")
    case True
    with Cons.prems have run: "pickBestLoop (Suc i) rest (bi, bb) = (ri, rb)" by simp
    have "\<forall>p\<in>insert b S.
            Bindings p \<noteq> [] \<longrightarrow> Bindings bb \<noteq> [] \<and> \<not> less_PotentialBindings p bb"
      using Cons.prems(2) True by simp
    from Cons.IH [OF run this] show ?thesis by simp
  next
    case nonempty: False
    show ?thesis
    proof (cases "Bindings bb = [] \<or> less_PotentialBindings b bb")
      case True
      with nonempty Cons.prems have run: "pickBestLoop (Suc i) rest (i, b) = (ri, rb)"
        by simp
      have "\<forall>p\<in>insert b S.
              Bindings p \<noteq> [] \<longrightarrow> Bindings b \<noteq> [] \<and> \<not> less_PotentialBindings p b"
        using Cons.prems(2) True nonempty
        by (auto simp add: less_PotentialBindings_irrefl dest: less_PotentialBindings_trans)
      from Cons.IH [OF run this] show ?thesis by simp
    next
      case False
      with nonempty Cons.prems have run: "pickBestLoop (Suc i) rest (bi, bb) = (ri, rb)"
        by simp
      have "\<forall>p\<in>insert b S.
              Bindings p \<noteq> [] \<longrightarrow> Bindings bb \<noteq> [] \<and> \<not> less_PotentialBindings p bb"
        using Cons.prems(2) False by simp
      from Cons.IH [OF run this] show ?thesis by simp
    qed
  qed
qed

lemma pickBestLoop_index:
  assumes "pickBestLoop (length pre) rest (bi, bb) = (ri, rb)"
    and "bi < length pre" and "(pre @ rest) ! bi = bb"
  shows "ri < length (pre @ rest) \<and> (pre @ rest) ! ri = rb"
  using assms
proof (induction rest arbitrary: pre bi bb)
  case Nil
  then show ?case by simp
next
  case (Cons b rest)
  have idx: "(pre @ b # rest) ! length pre = b" by simp
  show ?case
  proof (cases "Bindings b \<noteq> [] \<and> (Bindings bb = [] \<or> less_PotentialBindings b bb)")
    case True
    with Cons.prems have "pickBestLoop (length (pre @ [b])) rest (length pre, b) = (ri, rb)"
      by simp
    from Cons.IH [OF this] idx show ?thesis by simp
  next
    case False
    with Cons.prems have "pickBestLoop (length (pre @ [b])) rest (bi, bb) = (ri, rb)"
      by (cases "Bindings b = []") auto
    from Cons.IH [OF this] Cons.prems(2,3) show ?thesis by simp
  qed
qed

lemma pickBestBindings_minimal:
  assumes "pickBestBindings pbs = Some (i, best)"
  shows "i < length pbs \<and> pbs ! i = best \<and>
         (\<forall>p\<in>set pbs.
            Bindings p \<noteq> [] \<longrightarrow> Bindings best \<noteq> [] \<and> \<not> less_PotentialBindings p best)"
proof (cases pbs)
  case Nil
  with assms show ?thesis by (simp add: pickBestBindings_def)
next
  case (Cons first rest)
  with assms have run: "pickBestLoop (length [first]) rest (0, first) = (i, best)"
    by (simp add: pickBestBindings_def)
  have "\<forall>p\<in>{first}.
          Bindings p \<noteq> [] \<longrightarrow> Bindings first \<noteq> [] \<and> \<not> less_PotentialBindings p first"
    by (simp add: less_PotentialBindings_irrefl)
  from pickBestLoop_minimal [OF run [simplified] this] pickBestLoop_index [OF run] Cons
  show ?thesis by simp
qed

text \<open>
  Claim C5, as stated: for any two sets of potential bindings, \<open>x < y\<close> iff the tuple
  of \<open>x\<close> is lexicographically less, a larger number of candidates ordered better.
  The source negates the unsigned \<^verbatim>\<open>size()\<close>: the negation of \<open>0\<close> is \<open>0\<close>, the least
  value, so the empty set is ordered before a set of one binding with the same flags,
  where the order of the claim has the set of one binding first.
\<close>

theorem less_PotentialBindings_empty_counterexample:
  "less_PotentialBindings noBindings oneBinding \<and> \<not> rankedBetter_spec noBindings oneBinding"
  by (simp add: less_PotentialBindings_def rankedBetter_spec_def tuple4_less_def
      negatedSize_def noBindings_def oneBinding_def zero_less_minus_one)

text \<open>
  Claim C5, amended: for any two sets of potential bindings that are not empty (and
  hold fewer than \<open>2 ^ 64\<close> bindings), \<open>x < y\<close> iff the tuple
  \<open>(FullyBound, InvolvesTypeVariables, HasLiteralBindings, - |Bindings|)\<close> of \<open>x\<close> is
  lexicographically less than that of \<open>y\<close>, false before true and a larger number of
  candidates better. The driver compares only sets that are not empty: a set without
  bindings is skipped and never replaces the best one, and the variable it picks is
  one whose set is not empty, when there is one, and no other non-empty set is better
  than it in this order.
\<close>

theorem less_PotentialBindings_order:
  "(Bindings x \<noteq> [] \<and> Bindings y \<noteq> [] \<and>
    length (Bindings x) < 2 ^ 64 \<and> length (Bindings y) < 2 ^ 64 \<longrightarrow>
      (less_PotentialBindings x y \<longleftrightarrow> rankedBetter_spec x y)) \<and>
   (pickBestBindings pbs = Some (i, best) \<longrightarrow>
      i < length pbs \<and> pbs ! i = best \<and>
      (\<forall>p\<in>set pbs.
         Bindings p \<noteq> [] \<longrightarrow> Bindings best \<noteq> [] \<and> \<not> less_PotentialBindings p best))"
  using less_PotentialBindings_nonempty [of x y] pickBestBindings_minimal [of pbs i best]
  by blast

theorem less_PotentialBindings_order_witness:
  "Bindings twoBindings \<noteq> [] \<and> Bindings oneBinding \<noteq> [] \<and>
   length (Bindings twoBindings) < 2 ^ 64 \<and> length (Bindings oneBinding) < 2 ^ 64 \<and>
   less_PotentialBindings twoBindings oneBinding \<and>
   rankedBetter_spec twoBindings oneBinding \<and>
   pickBestBindings [noBindings, oneBinding, twoBindings] = Some (2, twoBindings) \<and>
   \<not> less_PotentialBindings oneBinding twoBindings"
proof -
  have nonempty: "Bindings twoBindings \<noteq> [] \<and> Bindings oneBinding \<noteq> [] \<and>
      length (Bindings twoBindings) < 2 ^ 64 \<and> length (Bindings oneBinding) < 2 ^ 64"
    by (simp add: twoBindings_def oneBinding_def)
  have ranked: "rankedBetter_spec twoBindings oneBinding"
    by (simp add: rankedBetter_spec_def twoBindings_def oneBinding_def)
  have picked: "pickBestBindings [noBindings, oneBinding, twoBindings] = Some (2, twoBindings)"
    by (simp add: pickBestBindings_def less_PotentialBindings_def tuple4_less_def
        negatedSize_def twoBindings_def oneBinding_def noBindings_def)
  have one: "oneBinding \<in> set [noBindings, oneBinding, twoBindings]" by simp
  from less_PotentialBindings_order
    [of twoBindings oneBinding "[noBindings, oneBinding, twoBindings]" 2 twoBindings]
    nonempty ranked picked one
  show ?thesis by blast
qed

subsection \<open>getPotentialBindings\<close>

lemma addBinding_involves:
  "InvolvesTypeVariables (result (addBinding cs type isOpen literal st)) =
   InvolvesTypeVariables (result st)"
  by (simp add: addBinding_def Let_def)

lemma setInvolves_involves: "InvolvesTypeVariables (result (setInvolvesTypeVariables st))"
  by (simp add: setInvolvesTypeVariables_def)

lemma addBelow_keeps:
  "InvolvesTypeVariables (result st) \<Longrightarrow> InvolvesTypeVariables (result (addBelow cs v st arg))"
  by (cases "checkTypeOfBinding cs v (snd arg)")
     (simp_all add: addBelow_def addBinding_involves setInvolves_involves)

lemma addBelow_rejected:
  "checkTypeOfBinding cs v (snd arg) = None \<Longrightarrow>
   InvolvesTypeVariables (result (addBelow cs v st arg))"
  by (simp add: addBelow_def setInvolves_involves)

lemma addAbove_keeps:
  "InvolvesTypeVariables (result st) \<Longrightarrow> InvolvesTypeVariables (result (addAbove cs v st arg))"
  by (cases "checkTypeOfBinding cs v (snd arg)")
     (simp_all add: addAbove_def Let_def addBinding_involves setInvolves_involves)

lemma addAbove_rejected:
  "checkTypeOfBinding cs v (snd arg) = None \<Longrightarrow>
   InvolvesTypeVariables (result (addAbove cs v st arg))"
  by (simp add: addAbove_def setInvolves_involves)

lemma addDefaultType_keeps:
  "InvolvesTypeVariables (result st) \<Longrightarrow>
   InvolvesTypeVariables (result (addDefaultType cs st constraint))"
  by (cases "getDefaultType cs (getProtocol constraint)")
     (simp_all add: addDefaultType_def Let_def addBinding_involves)

lemma foldl_addBelow_keeps:
  "InvolvesTypeVariables (result st) \<Longrightarrow>
   InvolvesTypeVariables (result (foldl (addBelow cs v) st xs))"
  by (induction xs arbitrary: st) (simp_all add: addBelow_keeps)

lemma foldl_addAbove_keeps:
  "InvolvesTypeVariables (result st) \<Longrightarrow>
   InvolvesTypeVariables (result (foldl (addAbove cs v) st xs))"
  by (induction xs arbitrary: st) (simp_all add: addAbove_keeps)

lemma foldl_addDefaultType_keeps:
  "InvolvesTypeVariables (result st) \<Longrightarrow>
   InvolvesTypeVariables (result (foldl (addDefaultType cs) st xs))"
  by (induction xs arbitrary: st) (simp_all add: addDefaultType_keeps)

lemma foldl_addBelow_rejected:
  assumes "arg \<in> set xs" and "checkTypeOfBinding cs v (snd arg) = None"
  shows "InvolvesTypeVariables (result (foldl (addBelow cs v) st xs))"
  using assms(1)
proof (induction xs arbitrary: st)
  case Nil
  then show ?case by simp
next
  case (Cons x xs)
  show ?case
  proof (cases "x = arg")
    case True
    then have "InvolvesTypeVariables (result (addBelow cs v st x))"
      using assms(2) by (simp add: addBelow_rejected)
    then show ?thesis by (simp add: foldl_addBelow_keeps)
  next
    case False
    with Cons.prems have "arg \<in> set xs" by simp
    from Cons.IH [OF this] show ?thesis by simp
  qed
qed

lemma foldl_addAbove_rejected:
  assumes "arg \<in> set xs" and "checkTypeOfBinding cs v (snd arg) = None"
  shows "InvolvesTypeVariables (result (foldl (addAbove cs v) st xs))"
  using assms(1)
proof (induction xs arbitrary: st)
  case Nil
  then show ?case by simp
next
  case (Cons x xs)
  show ?case
  proof (cases "x = arg")
    case True
    then have "InvolvesTypeVariables (result (addAbove cs v st x))"
      using assms(2) by (simp add: addAbove_rejected)
    then show ?thesis by (simp add: foldl_addAbove_keeps)
  next
    case False
    with Cons.prems have "arg \<in> set xs" by simp
    from Cons.IH [OF this] show ?thesis by simp
  qed
qed

text \<open>
  Claim C10: whenever \<^verbatim>\<open>checkTypeOfBinding\<close> rejects a candidate type of a lower or an
  upper bound of the variable, \<open>InvolvesTypeVariables\<close> of the result of
  \<^verbatim>\<open>getPotentialBindings\<close> is true, whatever the other bounds and the conformance
  constraints add: such a variable is never one whose bindings involve no type
  variables.
\<close>

theorem getPotentialBindings_rejected_bound:
  assumes "arg \<in> set (Below tvc) \<union> set (Above tvc)"
    and "checkTypeOfBinding cs (TypeVar tvc) (snd arg) = None"
  shows "InvolvesTypeVariables (getPotentialBindings cs tvc)"
proof -
  define st0 where "st0 = \<lparr>result = \<lparr>Bindings = [], FullyBound = FullyBoundTVC tvc,
                            InvolvesTypeVariables = HasNonConcreteConstraints tvc,
                            HasLiteralBindings = False\<rparr>,
                 exactTypes = []\<rparr>"
  define st1 where "st1 = foldl (addBelow cs (TypeVar tvc)) st0 (Below tvc)"
  define st2 where "st2 = foldl (addAbove cs (TypeVar tvc)) st1 (Above tvc)"
  have "InvolvesTypeVariables (result st2)"
  proof (cases "arg \<in> set (Below tvc)")
    case True
    then have "InvolvesTypeVariables (result st1)"
      unfolding st1_def using assms(2) by (rule foldl_addBelow_rejected)
    then show ?thesis unfolding st2_def by (rule foldl_addAbove_keeps)
  next
    case False
    with assms(1) have "arg \<in> set (Above tvc)" by simp
    then show ?thesis unfolding st2_def using assms(2) by (rule foldl_addAbove_rejected)
  qed
  then have "InvolvesTypeVariables
      (result (foldl (addDefaultType cs) st2 (ConformsToConstraints tvc)))"
    by (rule foldl_addDefaultType_keeps)
  then show ?thesis by (simp add: getPotentialBindings_def Let_def st0_def st1_def st2_def)
qed

theorem getPotentialBindings_rejected_bound_witness:
  "hd (Below recursiveBound) \<in> set (Below recursiveBound) \<union> set (Above recursiveBound) \<and>
  checkTypeOfBinding exampleEnv (TypeVar recursiveBound) (snd (hd (Below recursiveBound))) = None \<and>
  InvolvesTypeVariables (getPotentialBindings exampleEnv recursiveBound) \<and>
  \<not> HasNonConcreteConstraints recursiveBound"
proof -
  have member: "hd (Below recursiveBound) \<in> set (Below recursiveBound) \<union> set (Above recursiveBound)"
    by (simp add: recursiveBound_def)
  have rejected: "checkTypeOfBinding exampleEnv (TypeVar recursiveBound)
      (snd (hd (Below recursiveBound))) = None"
    by (simp add: recursiveBound_def checkTypeOfBinding_def exampleEnv_def)
  from getPotentialBindings_rejected_bound [OF member rejected] member rejected
  show ?thesis by (simp add: recursiveBound_def)
qed

subsection \<open>The classifier\<close>

text \<open>
  Claim C7, as stated: the type variables of a type-property constraint are marked
  as referenced also when the simplified type is itself a bare type variable, so that
  the variable, when it has a summary, has \<open>HasNonConcreteConstraints\<close>. The source
  guards the marking with \<^verbatim>\<open>if (!isa<TypeVariableType>(first.getPointer()))\<close>: with
  a type-property constraint on the bare variable \<open>0\<close> and a conformance constraint
  that gives the variable its summary, the summary has the flag false.
\<close>

theorem collect_typeProperty_bare_counterexample:
  "collectConstraintsForTypeVariables exampleEnv
     [typePropertyOfVariable, conformanceOfVariable] [] =
   Inr ([\<lparr>TypeVar = 0, FullyBoundTVC = False, HasNonConcreteConstraints = False,
          Below = [], Above = [], ConformsToConstraints = [conformanceOfVariable]\<rparr>], []) \<and>
   getKind typePropertyOfVariable = UnaryTypeProperty \<and>
   getFirstType typePropertyOfVariable = Some (TypeVariableType 0) \<and>
   0 \<in> set (getTypeVariables (simplifyType exampleEnv (TypeVariableType 0)))"
  by (simp add: collectConstraintsForTypeVariables_def collectConstraint_def
      typePropertyOfVariable_def conformanceOfVariable_def exampleEnv_def getTVC_def
      newTypeVariableConstraints_def)

lemma collectInner_mono:
  "collectInner cs inners refs = Inr refs' \<Longrightarrow> set refs \<subseteq> set refs'"
proof (induction inners arbitrary: refs)
  case Nil
  then show ?case by simp
next
  case (Cons inner rest)
  then show ?case
    by (cases "innerTypeVars cs inner") (auto dest!: Cons.IH)
qed

lemma collectNested_mono:
  "collectNested cs nested refs = Inr refs' \<Longrightarrow> set refs \<subseteq> set refs'"
proof (induction nested arbitrary: refs)
  case Nil
  then show ?case by simp
next
  case (Cons dis rest)
  from Cons.prems obtain refs1 where
    inner: "collectInner cs (if getKind dis = Conjunction then getNestedConstraints dis else [dis])
              refs = Inr refs1"
    and rest: "collectNested cs rest refs1 = Inr refs'"
    by (auto simp add: Let_def split: sum.splits)
  from collectInner_mono [OF inner] Cons.IH [OF rest] show ?case by blast
qed

lemma collectRelational_mono:
  assumes "collectRelational cs constraint first st = Inr st'"
  shows "set (referencedTypeVars st) \<subseteq> set (referencedTypeVars st')"
proof -
  from assms obtain second0 where "getSecondType constraint = Some second0"
    by (cases "getSecondType constraint") (simp_all add: collectRelational_def)
  with assms show ?thesis
    by (cases first; cases "simplifyType cs second0")
       (auto simp add: collectRelational_def Let_def)
qed

lemma collectConstraint_mono:
  assumes "collectConstraint cs constraint st = Inr st'"
  shows "set (referencedTypeVars st) \<subseteq> set (referencedTypeVars st')"
proof (cases "getClassification (getKind constraint)")
  case Relational
  with assms show ?thesis
    by (auto simp add: collectConstraint_def Let_def
        split: option.splits ty.splits if_splits dest: collectRelational_mono)
next
  case TypeProperty
  with assms show ?thesis
    by (auto simp add: collectConstraint_def Let_def split: option.splits if_splits)
next
  case Member
  with assms show ?thesis
    by (auto simp add: collectConstraint_def Let_def split: option.splits if_splits)
next
  case ConjunctionClass
  with assms show ?thesis by (simp add: collectConstraint_def)
next
  case DisjunctionClass
  with assms obtain refs where
    nested: "collectNested cs (getNestedConstraints constraint) (referencedTypeVars st) = Inr refs"
    and st': "referencedTypeVars st' = refs"
    by (auto simp add: collectConstraint_def split: sum.splits)
  from collectNested_mono [OF nested] st' show ?thesis by simp
qed

lemma collectLoop_mono:
  "collectLoop cs constraints st = Inr st' \<Longrightarrow>
   set (referencedTypeVars st) \<subseteq> set (referencedTypeVars st')"
proof (induction constraints arbitrary: st)
  case Nil
  then show ?case by simp
next
  case (Cons c rest)
  from Cons.prems obtain st1 where
    one: "collectConstraint cs c st = Inr st1" and rest: "collectLoop cs rest st1 = Inr st'"
    by (auto split: sum.splits)
  from collectConstraint_mono [OF one] Cons.IH [OF rest] show ?case by blast
qed

lemma collectConstraint_typeProperty:
  assumes "getKind c = UnaryTypeProperty" and "getFirstType c = Some t"
  shows "collectConstraint cs c st =
     Inr (if \<not> isTypeVariableType (simplifyType cs t)
          then st\<lparr>referencedTypeVars :=
                    referencedTypeVars st @ getTypeVariables (simplifyType cs t)\<rparr>
          else st)"
  using assms by (simp add: collectConstraint_def Let_def)

lemma collectLoop_typeProperty:
  assumes "collectLoop cs constraints st = Inr st'"
    and "c \<in> set constraints"
    and "getKind c = UnaryTypeProperty" and "getFirstType c = Some t"
    and "\<not> isTypeVariableType (simplifyType cs t)"
  shows "set (getTypeVariables (simplifyType cs t)) \<subseteq> set (referencedTypeVars st')"
  using assms(1,2)
proof (induction constraints arbitrary: st)
  case Nil
  then show ?case by simp
next
  case (Cons c' rest)
  from Cons.prems(1) obtain st1 where
    one: "collectConstraint cs c' st = Inr st1" and rest: "collectLoop cs rest st1 = Inr st'"
    by (auto split: sum.splits)
  show ?case
  proof (cases "c' = c")
    case True
    with one assms(3,4,5) have
      "set (getTypeVariables (simplifyType cs t)) \<subseteq> set (referencedTypeVars st1)"
      by (auto simp add: collectConstraint_typeProperty)
    with collectLoop_mono [OF rest] show ?thesis by blast
  next
    case False
    with Cons.prems(2) have "c \<in> set rest" by simp
    from Cons.IH [OF rest this] show ?thesis .
  qed
qed

lemma markReferenced_marks:
  assumes "\<forall>v\<in>set seen. \<forall>e\<in>set tvcs.
             TypeVar e = getRepresentative cs v \<longrightarrow> HasNonConcreteConstraints e"
  shows "\<forall>v\<in>set seen \<union> set refs. \<forall>e\<in>set (markReferenced cs seen refs tvcs).
           TypeVar e = getRepresentative cs v \<longrightarrow> HasNonConcreteConstraints e"
  using assms
proof (induction refs arbitrary: seen tvcs)
  case Nil
  then show ?case by simp
next
  case (Cons tv rest)
  show ?case
  proof (cases "tv \<in> set seen")
    case True
    with Cons.IH [OF Cons.prems] show ?thesis by auto
  next
    case False
    let ?tvcs = "map (\<lambda>e. if TypeVar e = getRepresentative cs tv
                           then e\<lparr>HasNonConcreteConstraints := True\<rparr> else e) tvcs"
    have "\<forall>v\<in>set (tv # seen). \<forall>e\<in>set ?tvcs.
            TypeVar e = getRepresentative cs v \<longrightarrow> HasNonConcreteConstraints e"
      using Cons.prems by auto
    from Cons.IH [OF this] False show ?thesis by auto
  qed
qed

text \<open>
  Claim C7, amended: when the classifier walks a type-property constraint whose
  simplified type is not itself a bare type variable, every type variable occurring
  in the simplified type is added to the referenced set, so such a variable, if its
  representative has a summary, ends up with \<open>HasNonConcreteConstraints\<close> true; when
  the simplified type is itself a bare type variable, the constraint adds nothing and
  leaves the walk's state as it is.
\<close>

theorem collect_typeProperty_referenced:
  "(collectConstraintsForTypeVariables cs constraints disjunctions0 = Inr (tvcs, ds) \<and>
    c \<in> set constraints \<and> getKind c = UnaryTypeProperty \<and> getFirstType c = Some t \<and>
    \<not> isTypeVariableType (simplifyType cs t) \<and>
    v \<in> set (getTypeVariables (simplifyType cs t)) \<and>
    e \<in> set tvcs \<and> TypeVar e = getRepresentative cs v \<longrightarrow>
      HasNonConcreteConstraints e) \<and>
   (getKind c = UnaryTypeProperty \<and> getFirstType c = Some t \<and>
    isTypeVariableType (simplifyType cs t) \<longrightarrow>
      collectConstraint cs c st = Inr st)"
proof (intro conjI impI)
  assume a: "collectConstraintsForTypeVariables cs constraints disjunctions0 = Inr (tvcs, ds) \<and>
    c \<in> set constraints \<and> getKind c = UnaryTypeProperty \<and> getFirstType c = Some t \<and>
    \<not> isTypeVariableType (simplifyType cs t) \<and>
    v \<in> set (getTypeVariables (simplifyType cs t)) \<and>
    e \<in> set tvcs \<and> TypeVar e = getRepresentative cs v"
  then obtain st' where
    loop: "collectLoop cs constraints
             \<lparr>typeVarConstraints = [], disjunctions = disjunctions0, referencedTypeVars = []\<rparr> =
           Inr st'"
    and tvcs: "tvcs = markReferenced cs [] (referencedTypeVars st') (typeVarConstraints st')"
    by (auto simp add: collectConstraintsForTypeVariables_def split: sum.splits)
  from a collectLoop_typeProperty [OF loop, of c t]
  have "v \<in> set (referencedTypeVars st')" by blast
  with markReferenced_marks [of "[]" "typeVarConstraints st'" cs "referencedTypeVars st'"] a tvcs
  show "HasNonConcreteConstraints e" by auto
next
  assume "getKind c = UnaryTypeProperty \<and> getFirstType c = Some t \<and>
    isTypeVariableType (simplifyType cs t)"
  then show "collectConstraint cs c st = Inr st"
    by (simp add: collectConstraint_typeProperty)
qed

theorem collect_typeProperty_referenced_witness:
  "collectConstraintsForTypeVariables exampleEnv
     [typePropertyOfFunction, conformanceOfVariable] [] =
   Inr ([\<lparr>TypeVar = 0, FullyBoundTVC = False, HasNonConcreteConstraints = True,
          Below = [], Above = [], ConformsToConstraints = [conformanceOfVariable]\<rparr>], []) \<and>
   typePropertyOfFunction \<in> set [typePropertyOfFunction, conformanceOfVariable] \<and>
   getKind typePropertyOfFunction = UnaryTypeProperty \<and>
   getFirstType typePropertyOfFunction = Some (FunctionType Int_ty (TypeVariableType 0) False) \<and>
   \<not> isTypeVariableType (simplifyType exampleEnv (FunctionType Int_ty (TypeVariableType 0) False)) \<and>
   0 \<in> set (getTypeVariables
              (simplifyType exampleEnv (FunctionType Int_ty (TypeVariableType 0) False))) \<and>
   HasNonConcreteConstraints
     \<lparr>TypeVar = 0, FullyBoundTVC = False, HasNonConcreteConstraints = True,
      Below = [], Above = [], ConformsToConstraints = [conformanceOfVariable]\<rparr> \<and>
   getKind typePropertyOfVariable = UnaryTypeProperty \<and>
   getFirstType typePropertyOfVariable = Some (TypeVariableType 0) \<and>
   isTypeVariableType (simplifyType exampleEnv (TypeVariableType 0)) \<and>
   collectConstraint exampleEnv typePropertyOfVariable
     \<lparr>typeVarConstraints = [], disjunctions = [], referencedTypeVars = []\<rparr> =
   Inr \<lparr>typeVarConstraints = [], disjunctions = [], referencedTypeVars = []\<rparr>"
proof -
  have run: "collectConstraintsForTypeVariables exampleEnv
       [typePropertyOfFunction, conformanceOfVariable] [] =
     Inr ([\<lparr>TypeVar = 0, FullyBoundTVC = False, HasNonConcreteConstraints = True,
            Below = [], Above = [], ConformsToConstraints = [conformanceOfVariable]\<rparr>], [])"
    by (simp add: collectConstraintsForTypeVariables_def collectConstraint_def
        typePropertyOfFunction_def conformanceOfVariable_def exampleEnv_def getTVC_def
        newTypeVariableConstraints_def Int_ty_def)
  have onFunction: "getKind typePropertyOfFunction = UnaryTypeProperty \<and>
      getFirstType typePropertyOfFunction =
        Some (FunctionType Int_ty (TypeVariableType 0) False) \<and>
      \<not> isTypeVariableType
          (simplifyType exampleEnv (FunctionType Int_ty (TypeVariableType 0) False)) \<and>
      0 \<in> set (getTypeVariables
                 (simplifyType exampleEnv (FunctionType Int_ty (TypeVariableType 0) False)))"
    by (simp add: typePropertyOfFunction_def exampleEnv_def Int_ty_def)
  have bare: "getKind typePropertyOfVariable = UnaryTypeProperty \<and>
      getFirstType typePropertyOfVariable = Some (TypeVariableType 0) \<and>
      isTypeVariableType (simplifyType exampleEnv (TypeVariableType 0))"
    by (simp add: typePropertyOfVariable_def exampleEnv_def)
  have rep: "TypeVar \<lparr>TypeVar = 0, FullyBoundTVC = False, HasNonConcreteConstraints = True,
        Below = [], Above = [], ConformsToConstraints = [conformanceOfVariable]\<rparr> =
      getRepresentative exampleEnv 0"
    by (simp add: exampleEnv_def)
  from collect_typeProperty_referenced
    [of exampleEnv "[typePropertyOfFunction, conformanceOfVariable]" "[]"
      "[\<lparr>TypeVar = 0, FullyBoundTVC = False, HasNonConcreteConstraints = True,
         Below = [], Above = [], ConformsToConstraints = [conformanceOfVariable]\<rparr>]" "[]"
      typePropertyOfFunction "FunctionType Int_ty (TypeVariableType 0) False" 0
      "\<lparr>TypeVar = 0, FullyBoundTVC = False, HasNonConcreteConstraints = True,
        Below = [], Above = [], ConformsToConstraints = [conformanceOfVariable]\<rparr>"]
    run onFunction rep
  have flag: "HasNonConcreteConstraints
      \<lparr>TypeVar = 0, FullyBoundTVC = False, HasNonConcreteConstraints = True,
       Below = [], Above = [], ConformsToConstraints = [conformanceOfVariable]\<rparr>"
    by simp
  from collect_typeProperty_referenced
    [of exampleEnv "[]" "[]" "[]" "[]" typePropertyOfVariable "TypeVariableType 0" 0
      "newTypeVariableConstraints 0"
      "\<lparr>typeVarConstraints = [], disjunctions = [], referencedTypeVars = []\<rparr>"]
    bare
  have step: "collectConstraint exampleEnv typePropertyOfVariable
       \<lparr>typeVarConstraints = [], disjunctions = [], referencedTypeVars = []\<rparr> =
     Inr \<lparr>typeVarConstraints = [], disjunctions = [], referencedTypeVars = []\<rparr>"
    by blast
  from run onFunction flag bare step show ?thesis by simp
qed

subsection \<open>tryTypeVariableBindings\<close>


lemma addSupertype_addNew:
  "addSupertype cs v acc u =
     (case checkTypeOfBinding cs v (Some u) of None \<Rightarrow> acc | Some s \<Rightarrow> addNew cs acc s)"
  by (simp add: addSupertype_def addNew_def split: option.splits)

lemma foldl_addSupertype:
  "foldl (addSupertype cs v) acc supers =
   foldl (addNew cs) acc (List.map_filter (\<lambda>u. checkTypeOfBinding cs v (Some u)) supers)"
proof (induction supers arbitrary: acc)
  case Nil
  then show ?case by simp
next
  case (Cons u supers)
  have "foldl (addSupertype cs v) acc (u # supers) =
        foldl (addSupertype cs v) (addSupertype cs v acc u) supers"
    by simp
  also have "\<dots> = foldl (addNew cs) (addSupertype cs v acc u)
                      (List.map_filter (\<lambda>u. checkTypeOfBinding cs v (Some u)) supers)"
    by (rule Cons.IH)
  also have "\<dots> = foldl (addNew cs) acc
                      (List.map_filter (\<lambda>u. checkTypeOfBinding cs v (Some u)) (u # supers))"
    by (cases "checkTypeOfBinding cs v (Some u)") (simp_all add: addSupertype_addNew)
  finally show ?case .
qed

lemma supertypeBindings_foldl:
  "supertypeBindings cs v bindings acc = Some r \<Longrightarrow>
   r = foldl (addNew cs) acc (acceptedSupertypes cs v bindings)"
proof (induction bindings arbitrary: acc)
  case Nil
  then show ?case by (simp add: acceptedSupertypes_def)
next
  case (Cons b bindings)
  from Cons.prems obtain supers where
    supers: "enumerateDirectSupertypes cs (fst b) = Some supers"
    and rest: "supertypeBindings cs v bindings (foldl (addSupertype cs v) acc supers) = Some r"
    by (auto split: option.splits)
  from Cons.IH [OF rest] supers show ?case
    by (simp add: acceptedSupertypes_def foldl_addSupertype)
qed

lemma supertypeBindings_total:
  "\<forall>b\<in>set bindings. scalarIndexInRange cs (fst b) \<Longrightarrow>
   \<exists>r. supertypeBindings cs v bindings acc = Some r"
proof (induction bindings arbitrary: acc)
  case Nil
  then show ?case by simp
next
  case (Cons b bindings)
  then have "scalarIndexInRange cs (fst b)" by simp
  from enumerateDirectSupertypes_total [OF this] obtain supers where
    "enumerateDirectSupertypes cs (fst b) = Some supers" by blast
  with Cons show ?case by simp
qed

lemma foldl_addNew_dedupNew:
  "foldl (addNew cs) acc xs =
     (fst acc @ dedupNew cs (snd acc) xs,
      snd acc @ map (\<lambda>b. getCanonicalType cs (fst b)) (dedupNew cs (snd acc) xs))"
  by (induction xs arbitrary: acc) (simp_all add: addNew_def)

lemma dedupNew_closed: "b \<in> set (dedupNew cs explored xs) \<Longrightarrow> snd b = False"
  by (induction xs arbitrary: explored) (auto split: if_splits)

lemma dedupNew_subset: "b \<in> set (dedupNew cs explored xs) \<Longrightarrow> fst b \<in> set xs"
  by (induction xs arbitrary: explored) (auto split: if_splits)

lemma dedupNew_canon:
  "(\<lambda>b. getCanonicalType cs (fst b)) ` set (dedupNew cs explored xs) =
   getCanonicalType cs ` set xs - set explored"
proof (induction xs arbitrary: explored)
  case Nil
  then show ?case by simp
next
  case (Cons x xs)
  show ?case
  proof (cases "getCanonicalType cs x \<in> set explored")
    case True
    then show ?thesis using Cons.IH [of explored] by auto
  next
    case False
    then show ?thesis using Cons.IH [of "explored @ [getCanonicalType cs x]"] by auto
  qed
qed

lemma dedupNew_distinct:
  "distinct (map (\<lambda>b. getCanonicalType cs (fst b)) (dedupNew cs explored xs))"
proof (induction xs arbitrary: explored)
  case Nil
  then show ?case by simp
next
  case (Cons x xs)
  have "getCanonicalType cs x \<notin>
      (\<lambda>b. getCanonicalType cs (fst b)) `
        set (dedupNew cs (explored @ [getCanonicalType cs x]) xs)"
    unfolding dedupNew_canon by simp
  with Cons.IH show ?case by simp
qed

lemma supertypeBindings_new:
  assumes "supertypeBindings cs v bindings ([], explored) = Some (newBindings, explored')"
  shows "newBindings = dedupNew cs explored (acceptedSupertypes cs v bindings)"
    and "explored' = explored @ map (\<lambda>b. getCanonicalType cs (fst b)) newBindings"
  using supertypeBindings_foldl [OF assms]
  by (simp_all add: foldl_addNew_dedupNew)

lemma nextBindings_later_round:
  "(nextBindings cs tvc (Suc k) bindings explored = Some (newBindings, explored') \<longrightarrow>
      newBindings = dedupNew cs explored (acceptedSupertypes cs (TypeVar tvc) bindings) \<and>
      explored' = explored @ map (\<lambda>b. getCanonicalType cs (fst b)) newBindings \<and>
      (\<forall>b\<in>set newBindings.
         snd b = False \<and> fst b \<in> set (acceptedSupertypes cs (TypeVar tvc) bindings)) \<and>
      (\<lambda>b. getCanonicalType cs (fst b)) ` set newBindings =
        getCanonicalType cs ` set (acceptedSupertypes cs (TypeVar tvc) bindings) - set explored \<and>
      distinct (map (\<lambda>b. getCanonicalType cs (fst b)) newBindings)) \<and>
   ((\<forall>b\<in>set bindings. scalarIndexInRange cs (fst b)) \<longrightarrow>
      (\<exists>r. nextBindings cs tvc (Suc k) bindings explored = Some r))"
proof -
  have first: "newBindings = dedupNew cs explored (acceptedSupertypes cs (TypeVar tvc) bindings) \<and>
      explored' = explored @ map (\<lambda>b. getCanonicalType cs (fst b)) newBindings \<and>
      (\<forall>b\<in>set newBindings.
         snd b = False \<and> fst b \<in> set (acceptedSupertypes cs (TypeVar tvc) bindings)) \<and>
      (\<lambda>b. getCanonicalType cs (fst b)) ` set newBindings =
        getCanonicalType cs ` set (acceptedSupertypes cs (TypeVar tvc) bindings) - set explored \<and>
      distinct (map (\<lambda>b. getCanonicalType cs (fst b)) newBindings)"
    if run: "nextBindings cs tvc (Suc k) bindings explored = Some (newBindings, explored')"
  proof -
    from run have "supertypeBindings cs (TypeVar tvc) bindings ([], explored) =
        Some (newBindings, explored')"
      by (simp add: nextBindings_def)
    from supertypeBindings_new [OF this]
    have new: "newBindings = dedupNew cs explored (acceptedSupertypes cs (TypeVar tvc) bindings)"
      and ex: "explored' = explored @ map (\<lambda>b. getCanonicalType cs (fst b)) newBindings"
      by blast+
    have "\<forall>b\<in>set newBindings.
        snd b = False \<and> fst b \<in> set (acceptedSupertypes cs (TypeVar tvc) bindings)"
      unfolding new using dedupNew_closed dedupNew_subset by blast
    moreover have "(\<lambda>b. getCanonicalType cs (fst b)) ` set newBindings =
        getCanonicalType cs ` set (acceptedSupertypes cs (TypeVar tvc) bindings) - set explored"
      unfolding new by (rule dedupNew_canon)
    moreover have "distinct (map (\<lambda>b. getCanonicalType cs (fst b)) newBindings)"
      unfolding new by (rule dedupNew_distinct)
    ultimately show ?thesis using new ex by blast
  qed
  have second: "\<exists>r. nextBindings cs tvc (Suc k) bindings explored = Some r"
    if inRange: "\<forall>b\<in>set bindings. scalarIndexInRange cs (fst b)"
  proof -
    from inRange obtain r where
      "supertypeBindings cs (TypeVar tvc) bindings ([], explored) = Some r"
      using supertypeBindings_total by blast
    then show ?thesis by (simp add: nextBindings_def)
  qed
  from first second show ?thesis by blast
qed



lemma roundsTried_empty [simp]:
  "roundsTried fuel cs cb sb tvc tryCount [] explored st = []"
  by (cases fuel) simp_all

















subsection \<open>solve, the top-level call\<close>

lemma keepBest_cases:
  "(length solutions \<le> 1 \<longrightarrow> keepBest findBestSolution solutions = Some solutions) \<and>
   (1 < length solutions \<and> findBestSolution solutions False = None \<longrightarrow>
      keepBest findBestSolution solutions = Some solutions) \<and>
   (1 < length solutions \<and> findBestSolution solutions False = Some best \<and>
    best < length solutions \<longrightarrow>
      keepBest findBestSolution solutions = Some [solutions ! best])"
proof -
  have "take 1 (solutions[0 := solutions ! best]) = [solutions ! best]"
    if "1 < length solutions" 
    using that by (cases solutions) simp_all
  moreover have "take 1 solutions = [solutions ! 0]" if "1 < length solutions"
    using that by (cases solutions) simp_all
  ultimately show ?thesis
    by (auto simp add: keepBest_def)
qed

text \<open>
  Claim C2: the call of \<^verbatim>\<open>solve\<close> made without a solver state constructs the solver
  state, runs the search with it and removes it again; when the search accumulated
  more than one solution it calls \<^verbatim>\<open>findBestSolution\<close> with \<open>minimize = false\<close> and
  keeps only the best solution when there is a unique one; it returns false (success)
  iff exactly one solution remains: no solution, and several solutions without a
  unique best one, give true (failure). \<open>solutions\<close> are the solutions after the
  search, \<open>cs1\<close> the state it leaves.
\<close>

theorem solve_top_level:
  assumes "solverState cs = None"
    and "solveWithState (cs\<lparr>solverState := Some newSolverState\<rparr>) given =
           (r, cs1, solutions)"
  shows "(length solutions \<le> 1 \<longrightarrow>
            solve solveWithState findBestSolution cs given =
              Returns (length solutions \<noteq> 1, cs1\<lparr>solverState := None\<rparr>, solutions)) \<and>
         (1 < length solutions \<and> findBestSolution solutions False = None \<longrightarrow>
            solve solveWithState findBestSolution cs given =
              Returns (True, cs1\<lparr>solverState := None\<rparr>, solutions)) \<and>
         (1 < length solutions \<and> findBestSolution solutions False = Some best \<and>
          best < length solutions \<longrightarrow>
            solve solveWithState findBestSolution cs given =
              Returns (False, cs1\<lparr>solverState := None\<rparr>, [solutions ! best])) \<and>
         (solve solveWithState findBestSolution cs given = Returns (failed, cs', solutions') \<longrightarrow>
            (failed \<longleftrightarrow> length solutions' \<noteq> 1) \<and> solverState cs' = None)"
proof -
  have unfold: "solve solveWithState findBestSolution cs given =
      (case keepBest findBestSolution solutions of
         None \<Rightarrow> UndefinedBehaviour
       | Some solutions1 \<Rightarrow>
           Returns (length solutions1 \<noteq> 1, cs1\<lparr>solverState := None\<rparr>, solutions1))"
    using assms by (simp add: solve_def split: option.splits)
  show ?thesis
    unfolding unfold using keepBest_cases [of solutions findBestSolution best]
    by (auto split: option.splits)
qed

theorem solve_top_level_witness:
  "solverState emptySystem = None \<and>
   twoSolutions (emptySystem\<lparr>solverState := Some newSolverState\<rparr>) [] =
     (False, emptySystem\<lparr>solverState := Some newSolverState\<rparr>, [10, 20]) \<and>
   1 < length [10, 20 :: nat] \<and> preferLast [10, 20] False = Some 1 \<and>
   solve twoSolutions preferLast emptySystem [] =
     Returns (False, emptySystem\<lparr>solverState := Some newSolverState\<rparr>\<lparr>solverState := None\<rparr>,
              [[10, 20] ! 1]) \<and>
   ambiguous [10, 20] False = None \<and>
   solve twoSolutions ambiguous emptySystem [] =
     Returns (True, emptySystem\<lparr>solverState := Some newSolverState\<rparr>\<lparr>solverState := None\<rparr>,
              [10, 20])"
proof -
  have noState: "solverState emptySystem = None"
    by (simp add: emptySystem_def)
  have search: "twoSolutions (emptySystem\<lparr>solverState := Some newSolverState\<rparr>) [] =
      (False, emptySystem\<lparr>solverState := Some newSolverState\<rparr>, [10, 20])"
    by (simp add: twoSolutions_def)
  have best: "1 < length [10, 20 :: nat] \<and> preferLast [10, 20] False = Some 1 \<and>
      1 < length [10, 20 :: nat]"
    by (simp add: preferLast_def)
  have none: "1 < length [10, 20 :: nat] \<and> ambiguous [10, 20] False = None"
    by (simp add: ambiguous_def)
  from solve_top_level
    [where cs = emptySystem and solveWithState = twoSolutions and given = "[]"
       and findBestSolution = preferLast and best = 1, OF noState search] best
  have unique: "solve twoSolutions preferLast emptySystem [] =
      Returns (False, emptySystem\<lparr>solverState := Some newSolverState\<rparr>\<lparr>solverState := None\<rparr>,
               [[10, 20] ! 1])"
    by blast
  from solve_top_level
    [where cs = emptySystem and solveWithState = twoSolutions and given = "[]"
       and findBestSolution = ambiguous, OF noState search] none
  have several: "solve twoSolutions ambiguous emptySystem [] =
      Returns (True, emptySystem\<lparr>solverState := Some newSolverState\<rparr>\<lparr>solverState := None\<rparr>,
               [10, 20])"
    by blast
  from noState search best none unique several show ?thesis by blast
qed

subsection \<open>simplify, with a constraint graph\<close>

lemma retireAfterFailure_props:
  "Worklist (retireAfterFailure cs) = [] \<and>
   Constraints (retireAfterFailure cs) = [] \<and>
   failedConstraint (retireAfterFailure cs) = failedConstraint cs \<and>
   (\<forall>c. isActive (retireAfterFailure cs) c = (c \<notin> set (Worklist cs) \<and> isActive cs c)) \<and>
   (case solverState cs of
      None \<Rightarrow> solverState (retireAfterFailure cs) = None
    | Some ss \<Rightarrow>
        solverState (retireAfterFailure cs) =
          Some (ss\<lparr>retiredConstraints := Constraints cs @ retiredConstraints ss\<rparr>))"
  by (cases "solverState cs") (simp_all add: retireAfterFailure_def Let_def)

lemma simplifyOne_error:
  assumes "simplifyConstraint cs constraint = (Error, afterSimplifier)"
  shows "\<exists>cs2. simplifyOne simplifyConstraint constraint retired cs = Some (retired, cs2) \<and>
           failedConstraint cs2 \<noteq> None \<and>
           failedPass_spec constraint afterSimplifier (retireAfterFailure cs2)"
proof -
  define cs2 where "cs2 = setInactive constraint (setFailedConstraint constraint afterSimplifier)"
  have one: "simplifyOne simplifyConstraint constraint retired cs = Some (retired, cs2)"
    using assms by (simp add: simplifyOne_def cs2_def)
  have failed: "failedConstraint cs2 =
      (if failedConstraint afterSimplifier = None then Some constraint else failedConstraint afterSimplifier)"
    by (simp add: cs2_def setInactive_def setFailedConstraint_def)
  then have notNone: "failedConstraint cs2 \<noteq> None" by (simp split: if_splits)
  have fields: "Worklist cs2 = Worklist afterSimplifier" "Constraints cs2 = Constraints afterSimplifier"
    "solverState cs2 = solverState afterSimplifier"
    "\<And>c. isActive cs2 c = (c \<noteq> constraint \<and> isActive afterSimplifier c)"
    by (auto simp add: cs2_def setInactive_def setFailedConstraint_def)
  from retireAfterFailure_props [of cs2] failed fields
  have "failedPass_spec constraint afterSimplifier (retireAfterFailure cs2)"
    unfolding failedPass_spec_def by (auto split: option.splits)
  with one notNone show ?thesis by blast
qed

lemma simplifyWorklist_failed:
  "(constraint, Error, afterSimplifier) \<in> set (simplifierAnswers fuel simplifyConstraint retired cs) \<Longrightarrow>
   \<exists>retired' cs'. simplifyWorklist fuel simplifyConstraint retired cs = Returns (True, retired', cs') \<and>
      failedPass_spec constraint afterSimplifier cs' \<and>
      last (simplifierAnswers fuel simplifyConstraint retired cs) = (constraint, Error, afterSimplifier) \<and>
      (\<forall>a\<in>set (butlast (simplifierAnswers fuel simplifyConstraint retired cs)). fst (snd a) \<noteq> Error)"
proof (induction fuel arbitrary: retired cs)
  case 0
  then show ?case by simp
next
  case (Suc fuel)
  from Suc.prems obtain x rest where wl: "Worklist cs = x # rest"
    by (cases "Worklist cs") simp_all
  let ?cs0 = "cs\<lparr>Worklist := rest\<rparr>"
  show ?case
  proof (cases "fst (simplifyConstraint ?cs0 x) = Error")
    case True
    then have ans: "simplifyConstraint ?cs0 x = (Error, snd (simplifyConstraint ?cs0 x))"
      by (metis prod.collapse)
    from simplifyOne_error
      [where simplifyConstraint = simplifyConstraint and cs = "?cs0" and constraint = x
         and afterSimplifier = "snd (simplifyConstraint ?cs0 x)" and retired = retired, OF ans]
    obtain cs2 where
      one: "simplifyOne simplifyConstraint x retired ?cs0 = Some (retired, cs2)"
      and failed: "failedConstraint cs2 \<noteq> None"
      and spec: "failedPass_spec x (snd (simplifyConstraint ?cs0 x)) (retireAfterFailure cs2)"
      by blast
    from wl one failed have answers:
      "simplifierAnswers (Suc fuel) simplifyConstraint retired cs =
         [(x, simplifyConstraint ?cs0 x)]"
      by simp
    from Suc.prems have "(constraint, Error, afterSimplifier) \<in>
        set [(x, simplifyConstraint ?cs0 x)]"
      unfolding answers .
    then have same: "constraint = x" "afterSimplifier = snd (simplifyConstraint ?cs0 x)"
      by (simp_all add: prod_eq_iff)
    from wl one failed have "simplifyWorklist (Suc fuel) simplifyConstraint retired cs =
        Returns (True, retired, retireAfterFailure cs2)"
      by simp
    with spec same answers ans show ?thesis by simp
  next
    case False
    then have notHead: "(constraint, Error, afterSimplifier) \<noteq> (x, simplifyConstraint ?cs0 x)"
      by (metis fst_conv snd_conv)
    let ?tail = "case simplifyOne simplifyConstraint x retired ?cs0 of
               None \<Rightarrow> []
             | Some r \<Rightarrow>
                 if failedConstraint (snd r) \<noteq> None \<or> worseThanBestSolution (snd r) then []
                 else simplifierAnswers fuel simplifyConstraint (fst r) (snd r)"
    from wl have unfolded: "simplifierAnswers (Suc fuel) simplifyConstraint retired cs =
        (x, simplifyConstraint ?cs0 x) # ?tail"
      by simp
    from Suc.prems have "(constraint, Error, afterSimplifier) \<in>
        set ((x, simplifyConstraint ?cs0 x) # ?tail)"
      unfolding unfolded .
    from set_ConsD [OF this] notHead
    have tail: "(constraint, Error, afterSimplifier) \<in> set ?tail"
      by blast
    then obtain r where one: "simplifyOne simplifyConstraint x retired ?cs0 = Some r"
      by (cases "simplifyOne simplifyConstraint x retired ?cs0") simp_all
    from tail one have go: "failedConstraint (snd r) = None" "\<not> worseThanBestSolution (snd r)"
      and inTail: "(constraint, Error, afterSimplifier) \<in>
        set (simplifierAnswers fuel simplifyConstraint (fst r) (snd r))"
      by (simp_all split: if_splits)
    from Suc.IH [OF inTail] obtain retired' cs' where
      run: "simplifyWorklist fuel simplifyConstraint (fst r) (snd r) = Returns (True, retired', cs')"
      and spec: "failedPass_spec constraint afterSimplifier cs'"
      and lst: "last (simplifierAnswers fuel simplifyConstraint (fst r) (snd r)) =
                  (constraint, Error, afterSimplifier)"
      and others: "\<forall>a\<in>set (butlast (simplifierAnswers fuel simplifyConstraint (fst r) (snd r))).
                     fst (snd a) \<noteq> Error"
      by blast
    from inTail have nonempty: "simplifierAnswers fuel simplifyConstraint (fst r) (snd r) \<noteq> []"
      by auto
    from wl one go have answers:
      "simplifierAnswers (Suc fuel) simplifyConstraint retired cs =
         (x, simplifyConstraint ?cs0 x) # simplifierAnswers fuel simplifyConstraint (fst r) (snd r)"
      by simp
    from wl one go run have "simplifyWorklist (Suc fuel) simplifyConstraint retired cs =
        Returns (True, retired', cs')"
      by simp
    moreover from answers nonempty lst have
      "last (simplifierAnswers (Suc fuel) simplifyConstraint retired cs) =
         (constraint, Error, afterSimplifier)"
      by simp
    moreover from answers nonempty others False have
      "\<forall>a\<in>set (butlast (simplifierAnswers (Suc fuel) simplifyConstraint retired cs)).
         fst (snd a) \<noteq> Error"
      by simp
    ultimately show ?thesis using spec by blast
  qed
qed

text \<open>
  Claim C3: in a pass of \<^verbatim>\<open>simplify\<close> with a constraint graph, when the simplifier
  returns \<open>Error\<close> for a constraint taken from the worklist, at whatever iteration of
  the loop, \<^verbatim>\<open>simplify\<close> returns true (failure). \<open>failedConstraint\<close> is that
  constraint, unless a failed constraint was recorded before, which is kept; the
  worklist is empty, and the constraint and every constraint that was left on the
  worklist are inactive; the active list is empty, all its constraints moved to the
  front of the retired list, or erased when there is no solver state. The rejected
  constraint is the last one that the pass gives to the simplifier, and the first one
  that the simplifier rejects. \<open>afterSimplifier\<close> is the state that the simplifier
  leaves when it rejects the constraint.
\<close>

theorem simplify_error:
  assumes "CG cs \<noteq> None"
    and "answers = simplifierAnswers fuel simplifyConstraint [] cs"
    and "(constraint, Error, afterSimplifier) \<in> set answers"
  shows "\<exists>cs'. simplify fuel simplifyConstraint simplifyWithoutGraph cs = Returns (True, cs') \<and>
           failedPass_spec constraint afterSimplifier cs' \<and>
           last answers = (constraint, Error, afterSimplifier) \<and>
           (\<forall>a\<in>set (butlast answers). fst (snd a) \<noteq> Error)"
proof -
  from assms(2,3) have "(constraint, Error, afterSimplifier) \<in>
      set (simplifierAnswers fuel simplifyConstraint [] cs)"
    by simp
  from simplifyWorklist_failed [OF this] obtain retired' cs' where
    run: "simplifyWorklist fuel simplifyConstraint [] cs = Returns (True, retired', cs')"
    and rest: "failedPass_spec constraint afterSimplifier cs'"
      "last answers = (constraint, Error, afterSimplifier)"
      "\<forall>a\<in>set (butlast answers). fst (snd a) \<noteq> Error"
    unfolding assms(2) by blast
  from run assms(1) have
    "simplify fuel simplifyConstraint simplifyWithoutGraph cs = Returns (True, cs')"
    by (simp add: simplify_def)
  with rest show ?thesis by blast
qed

theorem simplify_error_witness:
  "CG graphSystem \<noteq> None \<and>
   simplifierAnswers 5 failsOnTwo [] graphSystem =
     [(1, Unsolved, graphSystem\<lparr>Worklist := [2]\<rparr>), (2, Error, afterUnsolved)] \<and>
   (case simplify 5 failsOnTwo (\<lambda>cs. OutOfFuel) graphSystem of
      Returns r \<Rightarrow>
        fst r \<and> failedConstraint (snd r) = Some 2 \<and> Worklist (snd r) = [] \<and>
        \<not> isActive (snd r) 1 \<and> \<not> isActive (snd r) 2 \<and>
        Constraints (snd r) = [] \<and> retiredList (snd r) = Some [1, 2, 3]
    | _ \<Rightarrow> False)"
proof -
  have graph: "CG graphSystem \<noteq> None"
    by (simp add: graphSystem_def)
  have answers: "simplifierAnswers 5 failsOnTwo [] graphSystem =
      [(1, Unsolved, graphSystem\<lparr>Worklist := [2]\<rparr>), (2, Error, afterUnsolved)]"
    by (simp add: eval_nat_numeral graphSystem_def failsOnTwo_def afterUnsolved_def
        simplifyOne_def setInactive_def setFailedConstraint_def newSolverState_def
        worseThanBestSolution_def)
  have rejected: "(2, Error, afterUnsolved) \<in>
      set [(1, Unsolved, graphSystem\<lparr>Worklist := [2]\<rparr>), (2, Error, afterUnsolved)]"
    by simp
  have before: "failedConstraint afterUnsolved = None" "Worklist afterUnsolved = []"
    "Constraints afterUnsolved = [1, 2, 3]"
    "solverState afterUnsolved = Some (newSolverState\<lparr>NumUnsimplifiedConstraints := 1\<rparr>)"
    "\<not> isActive afterUnsolved 1"
    by (simp_all add: afterUnsolved_def graphSystem_def setInactive_def)
  from simplify_error
    [where cs = graphSystem and simplifyConstraint = failsOnTwo and fuel = 5
       and constraint = 2 and afterSimplifier = afterUnsolved
       and simplifyWithoutGraph = "\<lambda>cs. OutOfFuel", OF graph answers [symmetric] rejected]
  obtain cs' where
    run: "simplify 5 failsOnTwo (\<lambda>cs. OutOfFuel) graphSystem = Returns (True, cs')"
    and failed: "failedPass_spec 2 afterUnsolved cs'"
    by blast
  from failed before have "failedConstraint cs' = Some 2" "Worklist cs' = []"
    "\<not> isActive cs' 1" "\<not> isActive cs' 2" "Constraints cs' = []"
    "retiredList cs' = Some [1, 2, 3]"
    by (simp_all add: failedPass_spec_def retiredList_def newSolverState_def)
  with graph answers run show ?thesis by simp
qed

lemma setFailedConstraint_fields:
  "Constraints (setFailedConstraint c cs) = Constraints cs"
  "CG (setFailedConstraint c cs) = CG cs"
  "solverState (setFailedConstraint c cs) = solverState cs"
  "Worklist (setFailedConstraint c cs) = Worklist cs"
  "isActive (setFailedConstraint c cs) = isActive cs"
  by (simp_all add: setFailedConstraint_def)

lemma setInactive_fields:
  "Constraints (setInactive c cs) = Constraints cs"
  "CG (setInactive c cs) = CG cs"
  "solverState (setInactive c cs) = solverState cs"
  "Worklist (setInactive c cs) = Worklist cs"
  "failedConstraint (setInactive c cs) = failedConstraint cs"
  by (simp_all add: setInactive_def)

lemma simplifyOne_answer:
  assumes conf: "confined simplifyConstraint"
    and one: "simplifyOne simplifyConstraint constraint retired cs = Some (retired', cs')"
    and graph: "CG cs = Some g"
  shows "Constraints cs' = Constraints cs \<and> retiredList cs' = retiredList cs \<and>
     Worklist cs' = Worklist (snd (simplifyConstraint cs constraint)) \<and>
     (if fst (simplifyConstraint cs constraint) = Solved
      then set retired' = insert constraint (set retired) \<and> CG cs' = Some (g - {constraint})
      else retired' = retired \<and> CG cs' = Some g)"
proof -
  obtain k cs1 where r: "simplifyConstraint cs constraint = (k, cs1)"
    by (cases "simplifyConstraint cs constraint")
  from conf r have frame: "Constraints cs1 = Constraints cs" "retiredList cs1 = retiredList cs"
    "CG cs1 = CG cs"
    unfolding confined_def by (metis snd_conv)+
  show ?thesis
  proof (cases k)
    case Error
    with one r frame graph show ?thesis
      by (auto simp add: simplifyOne_def setInactive_fields setFailedConstraint_fields
          retiredList_def)
  next
    case Solved
    with one r obtain ss where ss: "solverState cs1 = Some ss"
      by (cases "solverState cs1") (simp_all add: simplifyOne_def)
    from one r Solved ss frame(3) graph have
      retired': "retired' = (if constraint \<in> set retired then retired
                             else retired @ [constraint])"
      and cs': "cs' = setInactive constraint
                  (cs1\<lparr>solverState :=
                         Some (ss\<lparr>NumSimplifiedConstraints :=
                                    NumSimplifiedConstraints ss + 1\<rparr>),
                       CG := Some (g - {constraint})\<rparr>)"
      by (simp_all add: simplifyOne_def graphRemoveConstraint_def)
    from retired' have "set retired' = insert constraint (set retired)"
      by (cases "constraint \<in> set retired") auto
    moreover from cs' frame ss have "Constraints cs' = Constraints cs"
      "retiredList cs' = retiredList cs" "CG cs' = Some (g - {constraint})"
      "Worklist cs' = Worklist cs1"
      by (simp_all add: setInactive_fields retiredList_def)
    ultimately show ?thesis using r Solved by simp
  next
    case Unsolved
    with one r frame graph show ?thesis
      by (auto simp add: simplifyOne_def setInactive_fields retiredList_def
          split: option.splits)
  qed
qed

lemma failedConstraint_retireAfterFailure:
  "failedConstraint (retireAfterFailure cs) = failedConstraint cs"
  by (cases "solverState cs") (simp_all add: retireAfterFailure_def Let_def)

lemma reportedSolved_Cons:
  "set (reportedSolved ((c, k, after) # answers)) =
     (if k = Solved then insert c (set (reportedSolved answers))
      else set (reportedSolved answers))"
  by (simp add: reportedSolved_def)

lemma simplifyWorklist_pruned:
  assumes conf: "confined simplifyConstraint"
  shows "simplifyWorklist fuel simplifyConstraint retired cs = Returns (True, retired', cs') \<Longrightarrow>
     failedConstraint cs' = None \<Longrightarrow> CG cs = Some g \<Longrightarrow>
     worseThanBestSolution cs' \<and> Constraints cs' = Constraints cs \<and>
     retiredList cs' = retiredList cs \<and>
     set retired' =
       set retired \<union> set (reportedSolved (simplifierAnswers fuel simplifyConstraint retired cs)) \<and>
     CG cs' =
       Some (g - set (reportedSolved (simplifierAnswers fuel simplifyConstraint retired cs)))"
proof (induction fuel arbitrary: retired cs g)
  case 0
  then show ?case by simp
next
  case (Suc fuel)
  from Suc.prems(1) obtain constraint rest where wl: "Worklist cs = constraint # rest"
    by (cases "Worklist cs") simp_all
  let ?cs0 = "cs\<lparr>Worklist := rest\<rparr>"
  obtain k after where ans: "simplifyConstraint ?cs0 constraint = (k, after)"
    by (cases "simplifyConstraint ?cs0 constraint")
  from Suc.prems(1) wl obtain r1 cs2 where
    one: "simplifyOne simplifyConstraint constraint retired ?cs0 = Some (r1, cs2)"
    by (cases "simplifyOne simplifyConstraint constraint retired ?cs0") auto
  define s1 where "s1 = (if k = Solved then {constraint} else {})"
  from Suc.prems(3) have "CG ?cs0 = Some g" by simp
  from simplifyOne_answer [OF conf one this] ans
  have frame: "Constraints cs2 = Constraints cs" "retiredList cs2 = retiredList cs"
    and step: "set r1 = set retired \<union> s1" "CG cs2 = Some (g - s1)"
    by (simp_all add: retiredList_def s1_def split: if_splits)
  show ?case
  proof (cases "failedConstraint cs2 \<noteq> None")
    case True
    with Suc.prems(1) wl one have "cs' = retireAfterFailure cs2" by simp
    with Suc.prems(2) True show ?thesis by (simp add: failedConstraint_retireAfterFailure)
  next
    case noFailure: False
    show ?thesis
    proof (cases "worseThanBestSolution cs2")
      case True
      with Suc.prems(1) wl one noFailure have same: "cs' = cs2" "retired' = r1" by simp_all
      from wl one True ans have
        "simplifierAnswers (Suc fuel) simplifyConstraint retired cs = [(constraint, k, after)]"
        by simp
      then have "set (reportedSolved (simplifierAnswers (Suc fuel) simplifyConstraint retired cs)) = s1"
        by (simp add: reportedSolved_Cons s1_def reportedSolved_def)
      with True frame step same show ?thesis by simp
    next
      case False
      with Suc.prems(1) wl one noFailure have
        run: "simplifyWorklist fuel simplifyConstraint r1 cs2 = Returns (True, retired', cs')"
        by simp
      let ?rest = "simplifierAnswers fuel simplifyConstraint r1 cs2"
      from wl one False noFailure ans have
        "simplifierAnswers (Suc fuel) simplifyConstraint retired cs = (constraint, k, after) # ?rest"
        by simp
      then have all: "set (reportedSolved (simplifierAnswers (Suc fuel) simplifyConstraint retired cs)) =
          s1 \<union> set (reportedSolved ?rest)"
        by (simp add: reportedSolved_Cons s1_def)
      from Suc.IH [OF run Suc.prems(2) step(2)] have
        "worseThanBestSolution cs'" "Constraints cs' = Constraints cs2"
        "retiredList cs' = retiredList cs2"
        "set retired' = set r1 \<union> set (reportedSolved ?rest)"
        "CG cs' = Some (g - s1 - set (reportedSolved ?rest))"
        by blast+
      with frame step all show ?thesis
        by (simp add: Un_assoc Diff_eq Int_assoc)
    qed
  qed
qed

lemma simplifierAnswers_listed:
  assumes conf: "confined simplifyConstraint" and act: "activatesFromGraph simplifyConstraint"
  shows "a \<in> set (simplifierAnswers fuel simplifyConstraint retired cs) \<Longrightarrow>
     CG cs = Some g \<Longrightarrow> g \<subseteq> set (Constraints cs) \<Longrightarrow>
     set (Worklist cs) \<subseteq> set (Constraints cs) \<Longrightarrow>
     fst a \<in> set (Constraints cs)"
proof (induction fuel arbitrary: retired cs g)
  case 0
  then show ?case by simp
next
  case (Suc fuel)
  from Suc.prems(1) obtain constraint rest where wl: "Worklist cs = constraint # rest"
    by (cases "Worklist cs") simp_all
  let ?cs0 = "cs\<lparr>Worklist := rest\<rparr>"
  let ?tail = "case simplifyOne simplifyConstraint constraint retired ?cs0 of
               None \<Rightarrow> []
             | Some r \<Rightarrow>
                 if failedConstraint (snd r) \<noteq> None \<or> worseThanBestSolution (snd r) then []
                 else simplifierAnswers fuel simplifyConstraint (fst r) (snd r)"
  from wl have unfolded: "simplifierAnswers (Suc fuel) simplifyConstraint retired cs =
      (constraint, simplifyConstraint ?cs0 constraint) # ?tail"
    by simp
  from Suc.prems(1) have "a \<in> set ((constraint, simplifyConstraint ?cs0 constraint) # ?tail)"
    unfolding unfolded .
  from set_ConsD [OF this] show ?case
  proof
    assume "a = (constraint, simplifyConstraint ?cs0 constraint)"
    with wl Suc.prems(4) show ?thesis by simp
  next
    assume tail: "a \<in> set ?tail"
    then obtain r where one: "simplifyOne simplifyConstraint constraint retired ?cs0 = Some r"
      by (cases "simplifyOne simplifyConstraint constraint retired ?cs0") simp_all
    from tail one have inTail: "a \<in> set (simplifierAnswers fuel simplifyConstraint (fst r) (snd r))"
      by (simp split: if_splits)
    from Suc.prems(2) have graph: "CG ?cs0 = Some g" by simp
    from one have one': "simplifyOne simplifyConstraint constraint retired ?cs0 = Some (fst r, snd r)"
      by simp
    from simplifyOne_answer [OF conf one' graph]
    have frame: "Constraints (snd r) = Constraints cs"
      and wl': "Worklist (snd r) = Worklist (snd (simplifyConstraint ?cs0 constraint))"
      and graph': "CG (snd r) = Some g \<or> CG (snd r) = Some (g - {constraint})"
      by (simp_all split: if_splits)
    from act have "set (Worklist (snd (simplifyConstraint ?cs0 constraint))) \<subseteq>
        set (Worklist ?cs0) \<union> (case CG ?cs0 of None \<Rightarrow> {} | Some g \<Rightarrow> g)"
      unfolding activatesFromGraph_def by blast
    with graph have "set (Worklist (snd (simplifyConstraint ?cs0 constraint))) \<subseteq> set rest \<union> g"
      by simp
    with wl wl' Suc.prems(3,4) frame have listed: "set (Worklist (snd r)) \<subseteq> set (Constraints (snd r))"
      by auto
    from graph' obtain g' where g': "CG (snd r) = Some g'" "g' \<subseteq> g" by auto
    with Suc.prems(3) frame have "g' \<subseteq> set (Constraints (snd r))" by simp
    from Suc.IH [OF inTail g'(1) this listed] frame show ?thesis by simp
  qed
qed

text \<open>
  Claim C9: in a pass of \<^verbatim>\<open>simplify\<close> with a constraint graph and a simplifier that
  keeps to its contract, when the loop returns true without a failed constraint, that
  is, from the test of \<^verbatim>\<open>worseThanBestSolution\<close>, the current score is worse than or
  equal to the best score, and the active list and the retired list are as they were
  before the pass: no constraint was moved to the retired list. The constraints
  removed from the constraint graph are those for which the simplifier answered
  \<open>Solved\<close> during the pass, which are the constraints of the local set of retired
  constraints, \<open>solved\<close>: every constraint that the simplifier reported solved is
  out of the graph, and it is in the active list, when the constraints of the graph
  and of the worklist are in the active list before the pass and the simplifier
  activates constraints of the graph only. \<open>answers\<close> are the calls of the simplifier
  in the pass.
\<close>

theorem simplify_pruned:
  assumes "confined simplifyConstraint" and "CG cs = Some g"
    and "simplifyWorklist fuel simplifyConstraint [] cs = Returns (True, solved, cs')"
    and "failedConstraint cs' = None"
    and "answers = simplifierAnswers fuel simplifyConstraint [] cs"
  shows "simplify fuel simplifyConstraint simplifyWithoutGraph cs = Returns (True, cs') \<and>
         worseThanBestSolution cs' \<and> Constraints cs' = Constraints cs \<and>
         retiredList cs' = retiredList cs \<and>
         set solved = set (reportedSolved answers) \<and>
         CG cs' = Some (g - set (reportedSolved answers)) \<and>
         (\<forall>c after. (c, Solved, after) \<in> set answers \<longrightarrow>
            c \<in> set solved \<and> (\<forall>g'. CG cs' = Some g' \<longrightarrow> c \<notin> g') \<and>
            (activatesFromGraph simplifyConstraint \<and> g \<subseteq> set (Constraints cs) \<and>
             set (Worklist cs) \<subseteq> set (Constraints cs) \<longrightarrow> c \<in> set (Constraints cs')))"
proof -
  from simplifyWorklist_pruned [OF assms(1,3,4,2)] have
    main: "worseThanBestSolution cs'" "Constraints cs' = Constraints cs"
    "retiredList cs' = retiredList cs" "set solved = set (reportedSolved answers)"
    "CG cs' = Some (g - set (reportedSolved answers))"
    unfolding assms(5) by simp_all
  from assms(2,3) have
    run: "simplify fuel simplifyConstraint simplifyWithoutGraph cs = Returns (True, cs')"
    by (simp add: simplify_def)
  have each: "c \<in> set solved \<and> (\<forall>g'. CG cs' = Some g' \<longrightarrow> c \<notin> g') \<and>
            (activatesFromGraph simplifyConstraint \<and> g \<subseteq> set (Constraints cs) \<and>
             set (Worklist cs) \<subseteq> set (Constraints cs) \<longrightarrow> c \<in> set (Constraints cs'))"
    if mem: "(c, Solved, after) \<in> set answers" for c after
  proof -
    from mem have "c \<in> set (reportedSolved answers)"
      by (force simp add: reportedSolved_def)
    with main have first: "c \<in> set solved" "\<forall>g'. CG cs' = Some g' \<longrightarrow> c \<notin> g'" by simp_all
    have "c \<in> set (Constraints cs')"
      if "activatesFromGraph simplifyConstraint" "g \<subseteq> set (Constraints cs)"
        "set (Worklist cs) \<subseteq> set (Constraints cs)"
      using simplifierAnswers_listed [OF assms(1) that(1) mem [unfolded assms(5)] assms(2) that(2,3)]
        main(2) by simp
    with first show ?thesis by blast
  qed
  from run main each show ?thesis by blast
qed

theorem simplify_pruned_witness:
  "confined solvesThenScores \<and> activatesFromGraph solvesThenScores \<and>
   CG prunedSystem = Some {1, 2, 3} \<and> {1, 2, 3} \<subseteq> set (Constraints prunedSystem) \<and>
   set (Worklist prunedSystem) \<subseteq> set (Constraints prunedSystem) \<and>
   simplifyWorklist 5 solvesThenScores [] prunedSystem =
     Returns (True, [1, 2], afterSecondSolved) \<and>
   failedConstraint afterSecondSolved = None \<and>
   map (\<lambda>a. (fst a, fst (snd a))) (simplifierAnswers 5 solvesThenScores [] prunedSystem) =
     [(1, Solved), (2, Solved)] \<and>
   simplify 5 solvesThenScores (\<lambda>cs. OutOfFuel) prunedSystem = Returns (True, afterSecondSolved) \<and>
   worseThanBestSolution afterSecondSolved \<and>
   Constraints afterSecondSolved = [1, 2, 3] \<and>
   retiredList afterSecondSolved = Some [] \<and>
   CG afterSecondSolved = Some {3}"
proof -
  have conf: "confined solvesThenScores"
    by (simp add: confined_def solvesThenScores_def retiredList_def)
  have act: "activatesFromGraph solvesThenScores"
    by (simp add: activatesFromGraph_def solvesThenScores_def)
  have graph: "CG prunedSystem = Some {1, 2, 3}"
    by (simp add: prunedSystem_def)
  have listed: "{1, 2, 3} \<subseteq> set (Constraints prunedSystem)"
    "set (Worklist prunedSystem) \<subseteq> set (Constraints prunedSystem)"
    by (simp_all add: prunedSystem_def)
  have run: "simplifyWorklist 5 solvesThenScores [] prunedSystem =
      Returns (True, [1, 2], afterSecondSolved)"
    by (simp add: eval_nat_numeral prunedSystem_def solvesThenScores_def afterSecondSolved_def
        simplifyOne_def graphRemoveConstraint_def setInactive_def newSolverState_def
        worseThanBestSolution_def)
  have noFailure: "failedConstraint afterSecondSolved = None"
    by (simp add: afterSecondSolved_def prunedSystem_def setInactive_def)
  have answers: "map (\<lambda>a. (fst a, fst (snd a)))
      (simplifierAnswers 5 solvesThenScores [] prunedSystem) = [(1, Solved), (2, Solved)]"
    by (simp add: eval_nat_numeral prunedSystem_def solvesThenScores_def
        simplifyOne_def graphRemoveConstraint_def setInactive_def newSolverState_def
        worseThanBestSolution_def)
  then have solved: "reportedSolved (simplifierAnswers 5 solvesThenScores [] prunedSystem) = [1, 2]"
    by (simp add: reportedSolved_def eval_nat_numeral prunedSystem_def solvesThenScores_def
        simplifyOne_def graphRemoveConstraint_def setInactive_def newSolverState_def
        worseThanBestSolution_def)
  from simplify_pruned
    [where simplifyWithoutGraph = "\<lambda>cs. OutOfFuel", OF conf graph run noFailure refl]
  have "simplify 5 solvesThenScores (\<lambda>cs. OutOfFuel) prunedSystem =
          Returns (True, afterSecondSolved)"
    "worseThanBestSolution afterSecondSolved"
    "Constraints afterSecondSolved = Constraints prunedSystem"
    "retiredList afterSecondSolved = retiredList prunedSystem"
    "CG afterSecondSolved =
       Some ({1, 2, 3} - set (reportedSolved (simplifierAnswers 5 solvesThenScores [] prunedSystem)))"
    by blast+
  moreover have "Constraints prunedSystem = [1, 2, 3]" "retiredList prunedSystem = Some []"
    "{1, 2, 3} - set [1, 2 :: nat] = {3}"
    by (auto simp add: prunedSystem_def retiredList_def newSolverState_def)
  ultimately show ?thesis using conf act graph listed run noFailure answers solved by simp
qed

subsection \<open>SolverScope\<close>

text \<open>
  Claim C1, as stated: the destruction of a scope restores the observable state to
  exactly its value before the scope. The constraints retired inside the scope are
  spliced back at the end of the active list, so the order of the active list is not
  restored: a scope in which the first of three constraints is retired leaves the
  list \<open>[2, 3, 1]\<close> where it was \<open>[1, 2, 3]\<close>.
\<close>

theorem solverScope_order_counterexample:
  "map_option Constraints (withSolverScope [RetireConstraint 1] graphSystem) = Some [2, 3, 1] \<and>
   Constraints graphSystem = [1, 2, 3]"
  by (simp add: withSolverScope_def SolverScope_enter_def SolverScope_exit_def
      retireConstraint_def restoreTypeVariableBindings_def truncate_vec_def
      graphSystem_def newSolverState_def)

lemma undoBindings_snoc:
  "undoBindings (journal @ [(tv, b tv)]) (b(tv := new)) = undoBindings journal b"
  by (simp add: undoBindings_def restoreBinding_def)

lemma takeWhile_firstRetired:
  assumes "distinct (newlyRetired @ old)"
  shows "takeWhile (\<lambda>c. Some c \<noteq> (case old of [] \<Rightarrow> None | c # _ \<Rightarrow> Some c))
           (newlyRetired @ old) = newlyRetired"
    and "dropWhile (\<lambda>c. Some c \<noteq> (case old of [] \<Rightarrow> None | c # _ \<Rightarrow> Some c))
           (newlyRetired @ old) = old"
proof -
  have new: "\<forall>c\<in>set newlyRetired. Some c \<noteq> (case old of [] \<Rightarrow> None | c # _ \<Rightarrow> Some c)"
    using assms by (cases old) auto
  have "takeWhile (\<lambda>c. Some c \<noteq> (case old of [] \<Rightarrow> None | c # _ \<Rightarrow> Some c)) old = []"
    and "dropWhile (\<lambda>c. Some c \<noteq> (case old of [] \<Rightarrow> None | c # _ \<Rightarrow> Some c)) old = old"
    by (cases old; simp)+
  with new show
    "takeWhile (\<lambda>c. Some c \<noteq> (case old of [] \<Rightarrow> None | c # _ \<Rightarrow> Some c))
       (newlyRetired @ old) = newlyRetired"
    "dropWhile (\<lambda>c. Some c \<noteq> (case old of [] \<Rightarrow> None | c # _ \<Rightarrow> Some c))
       (newlyRetired @ old) = old"
    by (simp_all add: takeWhile_append2 dropWhile_append2)
qed

lemma inScopeI:
  assumes "solverState base = Some ssBase" and "solverState cs = Some ssCur"
    and "TypeVariables cs = TypeVariables base @ typeVars"
    and "savedBindings ssCur = savedBindings ssBase @ journal"
    and "undoBindings journal (typeVariableBindings cs) = typeVariableBindings base"
    and "constraintRestrictions ssCur = constraintRestrictions ssBase @ restrictions"
    and "retiredConstraints ssCur = newlyRetired @ retiredConstraints ssBase"
    and "distinct (Constraints cs @ retiredConstraints ssCur)"
    and "{c \<in> set (Constraints cs) \<union> set newlyRetired. c \<notin> generatedConstraints ssCur} =
          set (Constraints base)"
    and "depth ssCur = depth ssBase + 1"
    and "CG base = None \<longrightarrow> CG cs = None"
  shows "inScope base cs"
  unfolding inScope_def by (intro exI conjI) (rule assms)+

lemma inScopeE:
  assumes "inScope base cs"
  obtains ssBase ssCur typeVars journal restrictions newlyRetired where
    "solverState base = Some ssBase" and "solverState cs = Some ssCur"
    and "TypeVariables cs = TypeVariables base @ typeVars"
    and "savedBindings ssCur = savedBindings ssBase @ journal"
    and "undoBindings journal (typeVariableBindings cs) = typeVariableBindings base"
    and "constraintRestrictions ssCur = constraintRestrictions ssBase @ restrictions"
    and "retiredConstraints ssCur = newlyRetired @ retiredConstraints ssBase"
    and "distinct (Constraints cs @ retiredConstraints ssCur)"
    and "{c \<in> set (Constraints cs) \<union> set newlyRetired. c \<notin> generatedConstraints ssCur} =
          set (Constraints base)"
    and "depth ssCur = depth ssBase + 1"
    and "CG base = None \<longrightarrow> CG cs = None"
  using assms unfolding inScope_def
  apply (elim exE conjE)
  apply (rule that; assumption)
  done

lemma enter_inScope:
  assumes "solverState base = Some ssBase"
    and "distinct (Constraints base @ retiredConstraints ssBase)"
    and "SolverScope_enter base = Some (scope, entered)"
  shows "inScope base entered"
proof -
  from assms(1,3) have entered: "entered = base\<lparr>solverState :=
      Some (ssBase\<lparr>depth := depth ssBase + 1, generatedConstraints := {},
               NumStatesExplored := NumStatesExplored ssBase + 1\<rparr>)\<rparr>"
    by (simp add: SolverScope_enter_def)
  show ?thesis
    by (rule inScopeI [where ssBase = ssBase and typeVars = "[]" and journal = "[]"
          and restrictions = "[]" and newlyRetired = "[]"
          and ssCur = "ssBase\<lparr>depth := depth ssBase + 1, generatedConstraints := {},
                         NumStatesExplored := NumStatesExplored ssBase + 1\<rparr>"])
       (use assms(1,2) in \<open>simp_all add: entered undoBindings_def\<close>)
qed

lemma exit_restored:
  assumes enter: "SolverScope_enter base = Some (scope, entered)"
    and inv: "inScope base cs"
  shows "\<exists>cs'. SolverScope_exit scope cs = Some cs' \<and> restored base cs'"
proof -
  from inv obtain ssBase ssCur typeVars journal restrictions newlyRetired where
    base: "solverState base = Some ssBase" and cur: "solverState cs = Some ssCur"
    and tvs: "TypeVariables cs = TypeVariables base @ typeVars"
    and saved: "savedBindings ssCur = savedBindings ssBase @ journal"
    and undo: "undoBindings journal (typeVariableBindings cs) = typeVariableBindings base"
    and restr: "constraintRestrictions ssCur = constraintRestrictions ssBase @ restrictions"
    and retired: "retiredConstraints ssCur = newlyRetired @ retiredConstraints ssBase"
    and dist: "distinct (Constraints cs @ retiredConstraints ssCur)"
    and active: "{c \<in> set (Constraints cs) \<union> set newlyRetired. c \<notin> generatedConstraints ssCur} =
          set (Constraints base)"
    and depth: "depth ssCur = depth ssBase + 1"
    and graph: "CG base = None \<longrightarrow> CG cs = None"
    by (rule inScopeE)
  from enter base have scope: "scope =
      \<lparr>resolvedOverloadSets_saved = resolvedOverloadSets base,
       numTypeVariables = length (TypeVariables base),
       numSavedBindings = length (savedBindings ssBase),
       firstRetired = (case retiredConstraints ssBase of [] \<Rightarrow> None | c # _ \<Rightarrow> Some c),
       numConstraintRestrictions = length (constraintRestrictions ssBase),
       oldGeneratedConstraints = generatedConstraints ssBase,
       PreviousScore = CurrentScore base,
       CGScope = CG base\<rparr>"
    by (simp add: SolverScope_enter_def)
  from dist retired have "distinct (newlyRetired @ retiredConstraints ssBase)" by simp
  note split = takeWhile_firstRetired [OF this]
  define cs' where "cs' = cs\<lparr>
      resolvedOverloadSets := resolvedOverloadSets base,
      TypeVariables := TypeVariables base,
      typeVariableBindings := typeVariableBindings base,
      Constraints := filter (\<lambda>c. c \<notin> generatedConstraints ssCur) (Constraints cs @ newlyRetired),
      CurrentScore := CurrentScore base,
      failedConstraint := None,
      CG := (case CG base of None \<Rightarrow> CG cs | Some g \<Rightarrow> Some g),
      solverState := Some (ssCur\<lparr>depth := depth ssCur - 1,
                               savedBindings := savedBindings ssBase,
                               retiredConstraints := retiredConstraints ssBase,
                               constraintRestrictions := constraintRestrictions ssBase,
                               generatedConstraints := generatedConstraints ssBase\<rparr>)\<rparr>"
  have "SolverScope_exit scope cs = Some cs'"
    unfolding SolverScope_exit_def
    using undo
    by (simp add: cur scope tvs saved restr retired split truncate_vec_def
        restoreTypeVariableBindings_def undoBindings_def cs'_def split: option.splits)
  moreover have kept:
    "set (filter (\<lambda>c. c \<notin> generatedConstraints ssCur) (Constraints cs @ newlyRetired)) =
       set (Constraints base)"
    "distinct (filter (\<lambda>c. c \<notin> generatedConstraints ssCur) (Constraints cs @ newlyRetired))"
    using active dist retired by auto
  moreover have "restored base cs'"
    unfolding restored_def
    apply (rule exI [of _ ssBase])
    apply (rule exI [of _ "ssCur\<lparr>depth := depth ssCur - 1,
                               savedBindings := savedBindings ssBase,
                               retiredConstraints := retiredConstraints ssBase,
                               constraintRestrictions := constraintRestrictions ssBase,
                               generatedConstraints := generatedConstraints ssBase\<rparr>"])
    using base depth graph kept
    by (auto simp add: cs'_def split: option.splits)
  ultimately show ?thesis by blast
qed

lemma inScope_frame:
  assumes "inScope base cs"
    and "solverState cs' = solverState cs" and "TypeVariables cs' = TypeVariables cs"
    and "typeVariableBindings cs' = typeVariableBindings cs"
    and "Constraints cs' = Constraints cs"
    and "CG cs' = CG cs"
  shows "inScope base cs'"
  using assms(1)
proof (rule inScopeE)
  fix ssBase ssCur typeVars journal restrictions newlyRetired
  assume "solverState base = Some ssBase" "solverState cs = Some ssCur"
    "TypeVariables cs = TypeVariables base @ typeVars"
    "savedBindings ssCur = savedBindings ssBase @ journal"
    "undoBindings journal (typeVariableBindings cs) = typeVariableBindings base"
    "constraintRestrictions ssCur = constraintRestrictions ssBase @ restrictions"
    "retiredConstraints ssCur = newlyRetired @ retiredConstraints ssBase"
    "distinct (Constraints cs @ retiredConstraints ssCur)"
    "{c \<in> set (Constraints cs) \<union> set newlyRetired. c \<notin> generatedConstraints ssCur} =
       set (Constraints base)"
    "depth ssCur = depth ssBase + 1" "CG base = None \<longrightarrow> CG cs = None"
  then show ?thesis
    using assms(2-6)
    by (intro inScopeI [where ssBase = ssBase and ssCur = ssCur and typeVars = typeVars
          and journal = journal and restrictions = restrictions
          and newlyRetired = newlyRetired]) simp_all
qed

lemma inScope_graph:
  assumes "inScope base cs" and "CG cs = Some g"
  shows "inScope base (cs\<lparr>CG := Some g'\<rparr>)"
  using assms(1)
proof (rule inScopeE)
  fix ssBase ssCur typeVars journal restrictions newlyRetired
  assume "solverState base = Some ssBase" "solverState cs = Some ssCur"
    "TypeVariables cs = TypeVariables base @ typeVars"
    "savedBindings ssCur = savedBindings ssBase @ journal"
    "undoBindings journal (typeVariableBindings cs) = typeVariableBindings base"
    "constraintRestrictions ssCur = constraintRestrictions ssBase @ restrictions"
    "retiredConstraints ssCur = newlyRetired @ retiredConstraints ssBase"
    "distinct (Constraints cs @ retiredConstraints ssCur)"
    "{c \<in> set (Constraints cs) \<union> set newlyRetired. c \<notin> generatedConstraints ssCur} =
       set (Constraints base)"
    "depth ssCur = depth ssBase + 1" "CG base = None \<longrightarrow> CG cs = None"
  then show ?thesis
    using assms(2)
    by (intro inScopeI [where ssBase = ssBase and ssCur = ssCur and typeVars = typeVars
          and journal = journal and restrictions = restrictions
          and newlyRetired = newlyRetired]) simp_all
qed

lemma inScope_addTypeVariable:
  assumes "inScope base cs"
  shows "inScope base (cs\<lparr>TypeVariables := TypeVariables cs @ [tv]\<rparr>)"
  using assms
proof (rule inScopeE)
  fix ssBase ssCur typeVars journal restrictions newlyRetired
  assume "solverState base = Some ssBase" "solverState cs = Some ssCur"
    "TypeVariables cs = TypeVariables base @ typeVars"
    "savedBindings ssCur = savedBindings ssBase @ journal"
    "undoBindings journal (typeVariableBindings cs) = typeVariableBindings base"
    "constraintRestrictions ssCur = constraintRestrictions ssBase @ restrictions"
    "retiredConstraints ssCur = newlyRetired @ retiredConstraints ssBase"
    "distinct (Constraints cs @ retiredConstraints ssCur)"
    "{c \<in> set (Constraints cs) \<union> set newlyRetired. c \<notin> generatedConstraints ssCur} =
       set (Constraints base)"
    "depth ssCur = depth ssBase + 1" "CG base = None \<longrightarrow> CG cs = None"
  then show ?thesis
    by (intro inScopeI [where ssBase = ssBase and ssCur = ssCur and typeVars = "typeVars @ [tv]"
          and journal = journal and restrictions = restrictions
          and newlyRetired = newlyRetired]) simp_all
qed

lemma inScope_assignFixedType:
  assumes "inScope base cs" and "assignFixedType tv new cs = Some cs'"
  shows "inScope base cs'"
  using assms(1)
proof (rule inScopeE)
  fix ssBase ssCur typeVars journal restrictions newlyRetired
  assume a: "solverState base = Some ssBase" "solverState cs = Some ssCur"
    "TypeVariables cs = TypeVariables base @ typeVars"
    "savedBindings ssCur = savedBindings ssBase @ journal"
    "undoBindings journal (typeVariableBindings cs) = typeVariableBindings base"
    "constraintRestrictions ssCur = constraintRestrictions ssBase @ restrictions"
    "retiredConstraints ssCur = newlyRetired @ retiredConstraints ssBase"
    "distinct (Constraints cs @ retiredConstraints ssCur)"
    "{c \<in> set (Constraints cs) \<union> set newlyRetired. c \<notin> generatedConstraints ssCur} =
       set (Constraints base)"
    "depth ssCur = depth ssBase + 1" "CG base = None \<longrightarrow> CG cs = None"
  from assms(2) a(2) have cs': "cs' = cs\<lparr>typeVariableBindings := (typeVariableBindings cs)(tv := new),
      solverState := Some (ssCur\<lparr>savedBindings :=
        savedBindings ssCur @ [(tv, typeVariableBindings cs tv)]\<rparr>)\<rparr>"
    by (simp add: assignFixedType_def)
  from a show ?thesis
    unfolding cs'
    by (intro inScopeI [where ssBase = ssBase and typeVars = typeVars
          and ssCur = "ssCur\<lparr>savedBindings :=
                 savedBindings ssCur @ [(tv, typeVariableBindings cs tv)]\<rparr>"
          and journal = "journal @ [(tv, typeVariableBindings cs tv)]"
          and restrictions = restrictions and newlyRetired = newlyRetired])
       (simp_all add: undoBindings_snoc)
qed

lemma inScope_retireConstraint:
  assumes "inScope base cs" and "retireConstraint c cs = Some cs'"
  shows "inScope base cs'"
  using assms(1)
proof (rule inScopeE)
  fix ssBase ssCur typeVars journal restrictions newlyRetired
  assume a: "solverState base = Some ssBase" "solverState cs = Some ssCur"
    "TypeVariables cs = TypeVariables base @ typeVars"
    "savedBindings ssCur = savedBindings ssBase @ journal"
    "undoBindings journal (typeVariableBindings cs) = typeVariableBindings base"
    "constraintRestrictions ssCur = constraintRestrictions ssBase @ restrictions"
    "retiredConstraints ssCur = newlyRetired @ retiredConstraints ssBase"
    "distinct (Constraints cs @ retiredConstraints ssCur)"
    "{c \<in> set (Constraints cs) \<union> set newlyRetired. c \<notin> generatedConstraints ssCur} =
       set (Constraints base)"
    "depth ssCur = depth ssBase + 1" "CG base = None \<longrightarrow> CG cs = None"
  from assms(2) a(2) have member: "c \<in> set (Constraints cs)"
    and cs': "cs' = cs\<lparr>Constraints := remove1 c (Constraints cs),
      solverState := Some (ssCur\<lparr>retiredConstraints := c # retiredConstraints ssCur\<rparr>)\<rparr>"
    by (simp_all add: retireConstraint_def split: if_splits)
  from a(8) member have dist: "distinct (remove1 c (Constraints cs) @ c # retiredConstraints ssCur)"
    by auto
  from a(8) member have "set (remove1 c (Constraints cs)) \<union> set (c # newlyRetired) =
      set (Constraints cs) \<union> set newlyRetired"
    by auto
  with a(9) have active:
    "{x \<in> set (remove1 c (Constraints cs)) \<union> set (c # newlyRetired).
        x \<notin> generatedConstraints ssCur} = set (Constraints base)"
    by simp
  from a dist active show ?thesis
    unfolding cs'
    by (intro inScopeI [where ssBase = ssBase and typeVars = typeVars
          and ssCur = "ssCur\<lparr>retiredConstraints := c # retiredConstraints ssCur\<rparr>"
          and journal = journal and restrictions = restrictions
          and newlyRetired = "c # newlyRetired"])
       simp_all
qed

lemma inScope_retireAllConstraints:
  assumes "inScope base cs" and "retireAllConstraints cs = Some cs'"
  shows "inScope base cs'"
  using assms(1)
proof (rule inScopeE)
  fix ssBase ssCur typeVars journal restrictions newlyRetired
  assume a: "solverState base = Some ssBase" "solverState cs = Some ssCur"
    "TypeVariables cs = TypeVariables base @ typeVars"
    "savedBindings ssCur = savedBindings ssBase @ journal"
    "undoBindings journal (typeVariableBindings cs) = typeVariableBindings base"
    "constraintRestrictions ssCur = constraintRestrictions ssBase @ restrictions"
    "retiredConstraints ssCur = newlyRetired @ retiredConstraints ssBase"
    "distinct (Constraints cs @ retiredConstraints ssCur)"
    "{c \<in> set (Constraints cs) \<union> set newlyRetired. c \<notin> generatedConstraints ssCur} =
       set (Constraints base)"
    "depth ssCur = depth ssBase + 1" "CG base = None \<longrightarrow> CG cs = None"
  from assms(2) a(2) have cs': "cs' = cs\<lparr>Constraints := [],
      solverState := Some (ssCur\<lparr>retiredConstraints :=
        Constraints cs @ retiredConstraints ssCur\<rparr>)\<rparr>"
    by (simp add: retireAllConstraints_def)
  from a show ?thesis
    unfolding cs'
    by (intro inScopeI [where ssBase = ssBase and typeVars = typeVars
          and ssCur = "ssCur\<lparr>retiredConstraints := Constraints cs @ retiredConstraints ssCur\<rparr>"
          and journal = journal and restrictions = restrictions
          and newlyRetired = "Constraints cs @ newlyRetired"])
       simp_all
qed

lemma inScope_generateConstraint:
  assumes "inScope base cs" and "generateConstraint c pushed cs = Some cs'"
  shows "inScope base cs'"
  using assms(1)
proof (rule inScopeE)
  fix ssBase ssCur typeVars journal restrictions newlyRetired
  assume a: "solverState base = Some ssBase" "solverState cs = Some ssCur"
    "TypeVariables cs = TypeVariables base @ typeVars"
    "savedBindings ssCur = savedBindings ssBase @ journal"
    "undoBindings journal (typeVariableBindings cs) = typeVariableBindings base"
    "constraintRestrictions ssCur = constraintRestrictions ssBase @ restrictions"
    "retiredConstraints ssCur = newlyRetired @ retiredConstraints ssBase"
    "distinct (Constraints cs @ retiredConstraints ssCur)"
    "{c \<in> set (Constraints cs) \<union> set newlyRetired. c \<notin> generatedConstraints ssCur} =
       set (Constraints base)"
    "depth ssCur = depth ssBase + 1" "CG base = None \<longrightarrow> CG cs = None"
  from assms(2) a(2) have fresh: "c \<notin> set (Constraints cs)" "c \<notin> set (retiredConstraints ssCur)"
    and cs': "cs' = cs\<lparr>Constraints := (if pushed then Constraints cs @ [c] else Constraints cs),
      solverState := Some (ssCur\<lparr>generatedConstraints :=
        insert c (generatedConstraints ssCur)\<rparr>)\<rparr>"
    by (simp_all add: generateConstraint_def split: if_splits)
  from fresh a(7) have new: "c \<notin> set newlyRetired" by simp
  from a(8) fresh have dist:
    "distinct ((if pushed then Constraints cs @ [c] else Constraints cs) @ retiredConstraints ssCur)"
    by auto
  from a(9) fresh new have active:
    "{x \<in> set (if pushed then Constraints cs @ [c] else Constraints cs) \<union> set newlyRetired.
        x \<notin> insert c (generatedConstraints ssCur)} = set (Constraints base)"
    by auto
  from a dist active show ?thesis
    unfolding cs'
    by (intro inScopeI [where ssBase = ssBase and typeVars = typeVars
          and ssCur = "ssCur\<lparr>generatedConstraints := insert c (generatedConstraints ssCur)\<rparr>"
          and journal = journal and restrictions = restrictions
          and newlyRetired = newlyRetired])
       simp_all
qed

lemma inScope_addConstraintRestriction:
  assumes "inScope base cs" and "addConstraintRestriction r cs = Some cs'"
  shows "inScope base cs'"
  using assms(1)
proof (rule inScopeE)
  fix ssBase ssCur typeVars journal restrictions newlyRetired
  assume a: "solverState base = Some ssBase" "solverState cs = Some ssCur"
    "TypeVariables cs = TypeVariables base @ typeVars"
    "savedBindings ssCur = savedBindings ssBase @ journal"
    "undoBindings journal (typeVariableBindings cs) = typeVariableBindings base"
    "constraintRestrictions ssCur = constraintRestrictions ssBase @ restrictions"
    "retiredConstraints ssCur = newlyRetired @ retiredConstraints ssBase"
    "distinct (Constraints cs @ retiredConstraints ssCur)"
    "{c \<in> set (Constraints cs) \<union> set newlyRetired. c \<notin> generatedConstraints ssCur} =
       set (Constraints base)"
    "depth ssCur = depth ssBase + 1" "CG base = None \<longrightarrow> CG cs = None"
  from assms(2) a(2) have cs': "cs' = cs\<lparr>solverState :=
      Some (ssCur\<lparr>constraintRestrictions := constraintRestrictions ssCur @ [r]\<rparr>)\<rparr>"
    by (simp add: addConstraintRestriction_def)
  from a show ?thesis
    unfolding cs'
    by (intro inScopeI [where ssBase = ssBase and typeVars = typeVars
          and ssCur = "ssCur\<lparr>constraintRestrictions := constraintRestrictions ssCur @ [r]\<rparr>"
          and journal = journal and restrictions = "restrictions @ [r]"
          and newlyRetired = newlyRetired])
       simp_all
qed

lemma restored_inScope:
  assumes "inScope base mid" and "restored mid cs'"
  shows "inScope base cs'"
  using assms(1)
proof (rule inScopeE)
  fix ssBase ssCur typeVars journal restrictions newlyRetired
  assume a: "solverState base = Some ssBase" "solverState mid = Some ssCur"
    "TypeVariables mid = TypeVariables base @ typeVars"
    "savedBindings ssCur = savedBindings ssBase @ journal"
    "undoBindings journal (typeVariableBindings mid) = typeVariableBindings base"
    "constraintRestrictions ssCur = constraintRestrictions ssBase @ restrictions"
    "retiredConstraints ssCur = newlyRetired @ retiredConstraints ssBase"
    "distinct (Constraints mid @ retiredConstraints ssCur)"
    "{c \<in> set (Constraints mid) \<union> set newlyRetired. c \<notin> generatedConstraints ssCur} =
       set (Constraints base)"
    "depth ssCur = depth ssBase + 1" "CG base = None \<longrightarrow> CG mid = None"
  from assms(2) a(2) obtain ssNew where r:
    "solverState cs' = Some ssNew"
    "TypeVariables cs' = TypeVariables mid"
    "typeVariableBindings cs' = typeVariableBindings mid"
    "savedBindings ssNew = savedBindings ssCur"
    "retiredConstraints ssNew = retiredConstraints ssCur"
    "constraintRestrictions ssNew = constraintRestrictions ssCur"
    "generatedConstraints ssNew = generatedConstraints ssCur"
    "depth ssNew = depth ssCur"
    "CG cs' = CG mid"
    "set (Constraints cs') = set (Constraints mid)"
    "distinct (Constraints cs')"
    unfolding restored_def by auto
  from a(8) r(10,11) have dist: "distinct (Constraints cs' @ retiredConstraints ssCur)"
    by auto
  from a r dist show ?thesis
    by (intro inScopeI [where ssBase = ssBase and typeVars = typeVars
          and ssCur = ssNew and journal = journal and restrictions = restrictions
          and newlyRetired = newlyRetired])
       simp_all
qed

lemma inScope_distinct:
  assumes "inScope base cs"
  obtains ssCur where "solverState cs = Some ssCur"
    and "distinct (Constraints cs @ retiredConstraints ssCur)"
  using assms by (rule inScopeE)

lemma runOp_inScope:
  "runOp op cs = Some cs' \<Longrightarrow> inScope base cs \<Longrightarrow> inScope base cs'"
  "runOps ops cs = Some cs' \<Longrightarrow> inScope base cs \<Longrightarrow> inScope base cs'"
proof (induction op cs and ops cs arbitrary: base cs' and base cs' rule: runOp_runOps.induct)
  case (1 item cs)
  from "1.prems"(2) show ?case
    by (rule inScope_frame) (use "1.prems"(1) in auto)
next
  case (2 tv cs)
  then show ?case by (auto intro: inScope_addTypeVariable)
next
  case (3 tv new cs)
  then show ?case by (auto intro: inScope_assignFixedType)
next
  case (4 c cs)
  then show ?case by (auto intro: inScope_retireConstraint)
next
  case (5 cs)
  then show ?case by (auto intro: inScope_retireAllConstraints)
next
  case (6 c pushed cs)
  then show ?case by (auto intro: inScope_generateConstraint)
next
  case (7 r cs)
  then show ?case by (auto intro: inScope_addConstraintRestriction)
next
  case (8 sc cs)
  from "8.prems"(2) show ?case
    by (rule inScope_frame) (use "8.prems"(1) in auto)
next
  case (9 c cs)
  from "9.prems"(2) show ?case
    by (rule inScope_frame) (use "9.prems"(1) in \<open>auto simp add: setFailedConstraint_def\<close>)
next
  case (10 c cs)
  from "10.prems"(1) obtain g where "CG cs = Some g" "cs' = cs\<lparr>CG := Some (insert c g)\<rparr>"
    by (auto simp add: graphAddConstraint_def split: option.splits)
  with "10.prems"(2) show ?case by (auto intro: inScope_graph)
next
  case (11 c cs)
  from "11.prems"(1) obtain g where "CG cs = Some g" "cs' = cs\<lparr>CG := Some (g - {c})\<rparr>"
    by (auto simp add: graphRemoveConstraint_def split: option.splits)
  with "11.prems"(2) show ?case by (auto intro: inScope_graph)
next
  case (12 ops cs)
  from "12.prems"(1) obtain scope entered inner where
    enter: "SolverScope_enter cs = Some (scope, entered)"
    and inner: "runOps ops entered = Some inner"
    and exit: "SolverScope_exit scope inner = Some cs'"
    by (auto split: option.splits)
  from "12.prems"(2) obtain ssCur where "solverState cs = Some ssCur"
    "distinct (Constraints cs @ retiredConstraints ssCur)"
    by (rule inScope_distinct)
  from enter_inScope [OF this enter] have "inScope cs entered" .
  with "12.IH" [of "(scope, entered)" inner cs] enter inner have "inScope cs inner" by simp
  from exit_restored [OF enter this] exit have "restored cs cs'" by auto
  with "12.prems"(2) show ?case by (rule restored_inScope)
next
  case (13 cs)
  then show ?case by simp
next
  case (14 op ops cs)
  from "14.prems"(1) obtain mid where
    one: "runOp op cs = Some mid" and rest: "runOps ops mid = Some cs'"
    by (auto split: option.splits)
  from "14.IH"(1) [OF one "14.prems"(2)] have "inScope base mid" .
  from "14.IH"(2) [OF one rest this] show ?case .
qed

text \<open>
  Claim C1, amended: for every scope that is constructed in a state with a solver
  state (the nodes of the active and the retired list distinct), used for any
  sequence of the solver's operations, nested scopes among them, and then destroyed,
  in particular along a failing branch, the destruction returns and restores: the
  head of the resolved overloads, the list of type variables, the bindings of the
  type variables (the journal replayed in reverse) and the journal, the retired list,
  the restriction table, the generated-constraints pointer, the current score and the
  depth, each to exactly its value before the scope, and the constraint graph when
  there is one; \<open>failedConstraint\<close> is cleared; and the active list holds exactly the
  constraints it held before the scope, the generated ones erased and the retired
  ones moved back, up to their order.
\<close>

theorem solverScope_round_trip:
  assumes "solverState cs = Some ss"
    and "distinct (Constraints cs @ retiredConstraints ss)"
    and "SolverScope_enter cs = Some (scope, entered)"
    and "runOps ops entered = Some inner"
  shows "\<exists>cs' ss'.
     SolverScope_exit scope inner = Some cs' \<and> withSolverScope ops cs = Some cs' \<and>
     solverState cs' = Some ss' \<and>
     resolvedOverloadSets cs' = resolvedOverloadSets cs \<and>
     TypeVariables cs' = TypeVariables cs \<and>
     typeVariableBindings cs' = typeVariableBindings cs \<and>
     savedBindings ss' = savedBindings ss \<and>
     retiredConstraints ss' = retiredConstraints ss \<and>
     mset (Constraints cs') = mset (Constraints cs) \<and>
     constraintRestrictions ss' = constraintRestrictions ss \<and>
     generatedConstraints ss' = generatedConstraints ss \<and>
     CurrentScore cs' = CurrentScore cs \<and>
     failedConstraint cs' = None \<and>
     depth ss' = depth ss \<and>
     CG cs' = CG cs"
proof -
  from enter_inScope [OF assms(1,2,3)] have "inScope cs entered" .
  from runOp_inScope(2) [OF assms(4) this] have "inScope cs inner" .
  from exit_restored [OF assms(3) this] obtain cs' where
    exit: "SolverScope_exit scope inner = Some cs'" and r: "restored cs cs'"
    by blast
  from assms(3,4) exit have whole: "withSolverScope ops cs = Some cs'"
    by (simp add: withSolverScope_def)
  from assms(2) have "distinct (Constraints cs)" by simp
  with r assms(1) have "mset (Constraints cs') = mset (Constraints cs)"
    unfolding restored_def by (auto simp add: set_eq_iff_mset_eq_distinct)
  with r assms(1) exit whole show ?thesis
    unfolding restored_def by auto
qed

theorem solverScope_round_trip_witness:
  "solverState graphSystem = Some newSolverState \<and>
   distinct (Constraints graphSystem @ retiredConstraints newSolverState) \<and>
   (case SolverScope_enter graphSystem of
      None \<Rightarrow> False
    | Some entered \<Rightarrow>
        (case runOps failingBranch (snd entered) of
           None \<Rightarrow> False
         | Some inner \<Rightarrow>
             failedConstraint inner = Some 7 \<and> Constraints inner = [] \<and>
             typeVariableBindings inner 0 = Fixed Int_ty \<and>
             (case SolverScope_exit (fst entered) inner of
                None \<Rightarrow> False
              | Some cs' \<Rightarrow>
                  failedConstraint cs' = None \<and>
                  typeVariableBindings cs' = typeVariableBindings graphSystem \<and>
                  mset (Constraints cs') = mset (Constraints graphSystem) \<and>
                  map_option retiredConstraints (solverState cs') = Some [] \<and>
                  map_option savedBindings (solverState cs') = Some [])))"
proof -
  have state: "solverState graphSystem = Some newSolverState"
    by (simp add: graphSystem_def)
  have nodes: "distinct (Constraints graphSystem @ retiredConstraints newSolverState)"
    by (simp add: graphSystem_def newSolverState_def)
  obtain scope entered where enter: "SolverScope_enter graphSystem = Some (scope, entered)"
    by (simp add: SolverScope_enter_def state)
  then have entered: "entered = graphSystem\<lparr>solverState :=
      Some (newSolverState\<lparr>depth := depth newSolverState + 1, generatedConstraints := {},
              NumStatesExplored := NumStatesExplored newSolverState + 1\<rparr>)\<rparr>"
    by (simp add: SolverScope_enter_def state)
  obtain inner where run: "runOps failingBranch entered = Some inner"
    and inside: "failedConstraint inner = Some 7" "Constraints inner = []"
      "typeVariableBindings inner 0 = Fixed Int_ty"
    by (simp add: entered failingBranch_def retireConstraint_def generateConstraint_def
        assignFixedType_def setFailedConstraint_def retireAllConstraints_def
        graphSystem_def newSolverState_def)
  from solverScope_round_trip [OF state nodes enter run] obtain cs' ss' where
    exit: "SolverScope_exit scope inner = Some cs'"
    and restored: "solverState cs' = Some ss'" "failedConstraint cs' = None"
      "typeVariableBindings cs' = typeVariableBindings graphSystem"
      "mset (Constraints cs') = mset (Constraints graphSystem)"
      "retiredConstraints ss' = retiredConstraints newSolverState"
      "savedBindings ss' = savedBindings newSolverState"
    by blast
  from restored have lists: "map_option retiredConstraints (solverState cs') = Some []"
    "map_option savedBindings (solverState cs') = Some []"
    by (simp_all add: newSolverState_def)
  from state nodes enter run inside exit restored(2-4) lists show ?thesis
    by simp
qed

end
